theory Spec2Isabelle
  imports Main
begin

section \<open>The directory tree read by the walker\<close>

text \<open>
  \<^verbatim>\<open>readdir\<close> reports each entry with a name and a type tag. The tags are the
  \<^verbatim>\<open>DT_*\<close> constants of \<^verbatim>\<open>dirent.h\<close>; the program tests three of them
  (\<^verbatim>\<open>DT_DIR\<close>, \<^verbatim>\<open>DT_REG\<close>, \<^verbatim>\<open>DT_UNKNOWN\<close>).
\<close>

datatype d_type =
  DT_UNKNOWN | DT_FIFO | DT_CHR | DT_DIR | DT_BLK | DT_REG | DT_LNK | DT_SOCK | DT_WHT

text \<open>
  An entry of a listing. \<open>d_sub\<close> is what \<^verbatim>\<open>opendir\<close>/\<^verbatim>\<open>readdir\<close> yield
  on the path of that entry: \<open>None\<close> when \<^verbatim>\<open>opendir\<close> returns \<^verbatim>\<open>NULL\<close>,
  otherwise the entries in the order \<^verbatim>\<open>readdir\<close> hands them out (the pseudo
  entries \<open>.\<close> and \<open>..\<close> included when the file system reports them).
  The tree is not modified while the program runs, so opening the same path twice
  gives the same listing.
\<close>

datatype dirent = Dirent (d_name: string) (d_type: d_type) (d_sub: "dirent list option")

section \<open>Configuration tables of \<^verbatim>\<open>gitree.c\<close>\<close>

definition SUBDIRNO :: nat where
  "SUBDIRNO = 4096"

definition SUBFILENO :: nat where
  "SUBFILENO = 4096"

definition git_files :: "string list" where
  "git_files =
    [''COMMIT_EDITMSG'', ''config'', ''description'', ''FETCH_HEAD'', ''HEAD'', ''index'',
     ''packed-refs'', ''ORIG_HEAD'', ''MERGE_HEAD'', ''MERGE_MODE'', ''MERGE_MSG'',
     ''MERGE_RR'', ''RENAMED-REF'', ''gitk.cache'',
     ''hooks'', ''info'', ''logs'', ''objects'', ''rebase-apply'', ''refs'', ''branches'',
     ''remotes'', ''shallow'', ''rr-cache'',
     ''cloneurl'',
     ''.repopickle_config'', ''clone.bundle'',
     ''config.bak'', ''config_bak'', ''config~'', ''description~'', ''hooks_bk'',
     ''hooks.bak'', ''hooks-bak'', ''COMMIT_EDITMSG~'', ''.gitignore'', ''pnt'', ''svn'',
     ''temp.patch'']"

definition exception_list :: "string list" where
  "exception_list = [''/git/android/.repo'']"

section \<open>Program state and outcomes\<close>

text \<open>
  One constructor per \<^verbatim>\<open>printf\<close> format of \<^verbatim>\<open>gitree.c\<close>, carrying the arguments:
  \<^item> \<open>Checking d\<close>: \<^verbatim>\<open>"Checking %s\n"\<close>
  \<^item> \<open>Non_bare d\<close>: \<^verbatim>\<open>"WARNING: %s non-bare git tree\n"\<close>
  \<^item> \<open>Name_not_with_git d\<close>: \<^verbatim>\<open>"WARNING: %s name not terminated with .git\n"\<close>
  \<^item> \<open>Breaks_layout d n\<close>: \<^verbatim>\<open>"WARNING: %s/%s breaks Git repo layout rule\n"\<close>
  \<^item> \<open>Not_in_git d n\<close>: \<^verbatim>\<open>"WARNING: %s/%s not in a git tree\n"\<close>
  \<^item> \<open>Check_result a b c d\<close>: the summary block printed by \<^verbatim>\<open>main\<close>.
\<close>

datatype line =
  Checking string
| Non_bare string
| Name_not_with_git string
| Breaks_layout string string
| Not_in_git string string
| Check_result int int int int

text \<open>
  The standard output written so far and the four static counters. The counters are C
  \<^verbatim>\<open>int\<close>s that only ever grow by one per warning; they are modelled as unbounded
  integers (a wrap would need more than \<open>2^31 - 1\<close> warnings of one category).
\<close>

record state =
  out :: "line list"
  sum_break_layout_rule :: int
  sum_dir_name_not_with_git :: int
  sum_non_bare_git :: int
  sum_not_in_git :: int

definition init :: state where
  "init = \<lparr>out = [], sum_break_layout_rule = 0, sum_dir_name_not_with_git = 0,
           sum_non_bare_git = 0, sum_not_in_git = 0\<rparr>"

text \<open>
  The places where the program stops early. Each constructor of \<open>fatal\<close> is one
  \<^verbatim>\<open>fprintf(stderr, ...); exit(...)\<close> site, named after its message;
  \<open>exit_arg\<close> is the argument that site passes to \<^verbatim>\<open>exit\<close>.
  \<open>Undefined\<close> stands for an access outside an array or string, which C leaves
  undefined.
\<close>

datatype fatal =
  Usage
| Gitree_opendir_failed
| Check_gitree_opendir_failed
| Reach_max_dir_num
| Reach_max_file_num
| Unknown_file_type

datatype stop = Exit fatal | Undefined

fun exit_arg :: "fatal \<Rightarrow> int" where
  "exit_arg Usage = -1"
| "exit_arg Gitree_opendir_failed = -1"
| "exit_arg Check_gitree_opendir_failed = -1"
| "exit_arg Reach_max_dir_num = -1"
| "exit_arg Reach_max_file_num = -1"
| "exit_arg Unknown_file_type = -2"

text \<open>The status the parent process observes: the low eight bits of the value.\<close>

definition exit_status :: "int \<Rightarrow> int" where
  "exit_status n = n mod 256"

type_synonym result = "(stop \<times> state) + state"

section \<open>\<^verbatim>\<open>in_exception_list\<close>\<close>

text \<open>
  \<^verbatim>\<open>strncmp(dirname, exception_list[i], strlen(exception_list[i])) == 0\<close> holds
  when the entry is a prefix of \<open>dirname\<close>; the loop stops at the first such entry.
\<close>

definition in_exception_list :: "string \<Rightarrow> bool" where
  "in_exception_list dirname =
     list_ex (\<lambda>x. take (length x) dirname = x) exception_list"

section \<open>\<^verbatim>\<open>check_gitree\<close>\<close>

text \<open>
  \<^verbatim>\<open>last_dir\<close>: the text after the last \<open>/\<close> of \<open>dirname\<close>, or all of it
  when there is none.
\<close>

definition last_dir :: "string \<Rightarrow> string" where
  "last_dir dirname =
     (if CHR ''/'' \<in> set dirname
      then rev (takeWhile (\<lambda>c. c \<noteq> CHR ''/'') (rev dirname))
      else dirname)"

definition dir_name_with_git :: "string \<Rightarrow> bool" where
  "dir_name_with_git dirname =
     (let l = last_dir dirname; dir_len = length l
      in 4 \<le> dir_len \<and> drop (dir_len - 4) l = ''.git'')"

text \<open>The \<^verbatim>\<open>readdir\<close> loop of \<^verbatim>\<open>check_gitree\<close>.\<close>

fun check_loop :: "string \<Rightarrow> dirent list \<Rightarrow> state \<Rightarrow> state" where
  "check_loop dirname [] s = s"
| "check_loop dirname (e # es) s =
     (if d_name e = ''.'' then check_loop dirname es s
      else if d_name e = ''..'' then check_loop dirname es s
      else if d_name e \<in> set git_files then check_loop dirname es s
      else check_loop dirname es
             (s\<lparr>sum_break_layout_rule := sum_break_layout_rule s + 1,
                out := out s @ [Breaks_layout dirname (d_name e)]\<rparr>))"

text \<open>
  \<open>t\<close> is what \<^verbatim>\<open>opendir(dirname)\<close> yields. The two naming tests come before
  the directory is opened, as in the source.
\<close>

definition check_gitree :: "string \<Rightarrow> dirent list option \<Rightarrow> state \<Rightarrow> result" where
  "check_gitree dirname t s =
     (let with_git = dir_name_with_git dirname;
          dir_len = length (last_dir dirname);
          s1 = (if with_git \<and> dir_len = 4 then
                  (if \<not> in_exception_list dirname
                   then s\<lparr>sum_non_bare_git := sum_non_bare_git s + 1,
                          out := out s @ [Non_bare dirname]\<rparr>
                   else s)
                else s);
          s2 = (if \<not> with_git
                then s1\<lparr>sum_dir_name_not_with_git := sum_dir_name_not_with_git s1 + 1,
                        out := out s1 @ [Name_not_with_git dirname]\<rparr>
                else s1)
      in case t of
           None \<Rightarrow> Inl (Exit Check_gitree_opendir_failed, s2)
         | Some es \<Rightarrow> Inr (check_loop dirname es s2))"

section \<open>\<^verbatim>\<open>gitree\<close>\<close>

text \<open>
  What the first loop of \<^verbatim>\<open>gitree\<close> builds. \<open>subdir\<close> holds the slots
  \<^verbatim>\<open>subdir[0 .. i-1]\<close>: the path stored there, paired with what opening that path
  yields; \<open>subfile\<close> holds \<^verbatim>\<open>subfile[0 .. j-1]\<close>. The indices \<^verbatim>\<open>i\<close> and
  \<^verbatim>\<open>j\<close> are the lengths of the two lists.
\<close>

record listing =
  subdir :: "(string \<times> dirent list option) list"
  subfile :: "string list"
  has_dir_objects :: bool
  has_dir_refs :: bool
  has_file_HEAD :: bool

definition listing0 :: listing where
  "listing0 = \<lparr>subdir = [], subfile = [], has_dir_objects = False, has_dir_refs = False,
               has_file_HEAD = False\<rparr>"

text \<open>
  The \<^verbatim>\<open>readdir\<close> loop of \<^verbatim>\<open>gitree\<close>. A store into \<^verbatim>\<open>subdir[i]\<close> or
  \<^verbatim>\<open>subfile[j]\<close> with the index at or past the array size is written out as
  \<open>Undefined\<close>.
\<close>

fun readdir_loop :: "string \<Rightarrow> dirent list \<Rightarrow> listing \<Rightarrow> stop + listing" where
  "readdir_loop dirname [] ls = Inr ls"
| "readdir_loop dirname (e # es) ls =
     (if d_name e = ''.'' then readdir_loop dirname es ls
      else if d_name e = ''..'' then readdir_loop dirname es ls
      else if d_type e = DT_DIR then
        (if SUBDIRNO \<le> length (subdir ls) then Inl Undefined
         else
           let ls' = ls\<lparr>has_dir_objects := (has_dir_objects ls \<or> d_name e = ''objects''),
                        has_dir_refs := (has_dir_refs ls \<or> d_name e = ''refs''),
                        subdir := subdir ls @ [(dirname @ ''/'' @ d_name e, d_sub e)]\<rparr>
           in if SUBDIRNO \<le> length (subdir ls') then Inl (Exit Reach_max_dir_num)
              else readdir_loop dirname es ls')
      else if d_type e = DT_REG then
        (if SUBFILENO \<le> length (subfile ls) then Inl Undefined
         else
           let ls' = ls\<lparr>has_file_HEAD := (has_file_HEAD ls \<or> d_name e = ''HEAD''),
                        subfile := subfile ls @ [d_name e]\<rparr>
           in if SUBFILENO \<le> length (subfile ls') then Inl (Exit Reach_max_file_num)
              else readdir_loop dirname es ls')
      else if d_type e = DT_UNKNOWN then Inl (Exit Unknown_file_type)
      else readdir_loop dirname es ls)"

text \<open>The loop over \<^verbatim>\<open>subfile\<close> in the branch for a directory that is no git tree.\<close>

fun subfile_loop :: "string \<Rightarrow> string list \<Rightarrow> state \<Rightarrow> state" where
  "subfile_loop dirname [] s = s"
| "subfile_loop dirname (f # fs) s =
     subfile_loop dirname fs
       (if \<not> in_exception_list dirname
        then s\<lparr>sum_not_in_git := sum_not_in_git s + 1,
               out := out s @ [Not_in_git dirname f]\<rparr>
        else s)"

text \<open>
  The size of what lies under a list of \<open>subdir\<close> slots; the recursion of
  \<^verbatim>\<open>gitree\<close> descends along it.
\<close>

definition slots_size :: "(string \<times> dirent list option) list \<Rightarrow> nat" where
  "slots_size ds = sum_list (map (\<lambda>(p, t). Suc (size_option (size_list size) t)) ds)"

lemma slots_size_simps:
  "slots_size [] = 0"
  "slots_size ((p, t) # ds) = Suc (size_option (size_list size) t) + slots_size ds"
  "slots_size (ds @ ds') = slots_size ds + slots_size ds'"
  by (simp_all add: slots_size_def)

lemma readdir_loop_size:
  "readdir_loop dirname es ls = Inr ls' \<Longrightarrow>
     slots_size (subdir ls') \<le> slots_size (subdir ls) + size_list size es"
proof (induction es arbitrary: ls)
  case Nil
  then show ?case by simp
next
  case (Cons e es)
  show ?case
  proof (cases e)
    case (Dirent n ty sub)
    with Cons.prems Cons.IH show ?thesis
      by (fastforce simp: Let_def slots_size_simps split: if_splits)
  qed
qed

text \<open>
  \<^verbatim>\<open>gitree(dirname)\<close>, with \<open>t\<close> what \<^verbatim>\<open>opendir(dirname)\<close> yields, and the
  loop over \<^verbatim>\<open>subdir\<close> that calls it for each slot. When the directory is a git
  tree \<^verbatim>\<open>check_gitree\<close> opens \<open>dirname\<close> again and reads the same listing.
  Every \<^verbatim>\<open>malloc\<close> is taken to succeed, and the calls of \<^verbatim>\<open>free\<close> leave no
  trace in the state. A stop carries the state reached: \<^verbatim>\<open>exit\<close> flushes what was
  printed before it.
\<close>

function gitree :: "string \<Rightarrow> dirent list option \<Rightarrow> state \<Rightarrow> result"
  and subdir_loop :: "(string \<times> dirent list option) list \<Rightarrow> state \<Rightarrow> result"
where
  "gitree dirname None s = Inl (Exit Gitree_opendir_failed, s)"
| "gitree dirname (Some es) s =
     (let s1 = s\<lparr>out := out s @ [Checking dirname]\<rparr>
      in case readdir_loop dirname es listing0 of
           Inl st \<Rightarrow> Inl (st, s1)
         | Inr ls \<Rightarrow>
             if has_dir_objects ls \<and> has_dir_refs ls \<and> has_file_HEAD ls
             then check_gitree dirname (Some es) s1
             else subdir_loop (subdir ls) (subfile_loop dirname (subfile ls) s1))"
| "subdir_loop [] s = Inr s"
| "subdir_loop ((p, t) # ds) s =
     (case gitree p t s of
        Inl x \<Rightarrow> Inl x
      | Inr s' \<Rightarrow> subdir_loop ds s')"
  by pat_completeness auto
termination
proof (relation "measure (\<lambda>x. case x of
                    Inl (dirname, t, s) \<Rightarrow> size_option (size_list size) t
                  | Inr (ds, s) \<Rightarrow> slots_size ds)")
  show "wf (measure (\<lambda>x. case x of
                    Inl (dirname, t, s) \<Rightarrow> size_option (size_list size) t
                  | Inr (ds, s) \<Rightarrow> slots_size ds))"
    by simp
next
  fix dirname :: string and es :: "dirent list" and s s1 :: state and ls :: listing
  assume "readdir_loop dirname es listing0 = Inr ls"
  from readdir_loop_size [OF this]
  show "(Inr (subdir ls, subfile_loop dirname (subfile ls) s1), Inl (dirname, Some es, s))
          \<in> measure (\<lambda>x. case x of
                    Inl (dirname, t, s) \<Rightarrow> size_option (size_list size) t
                  | Inr (ds, s) \<Rightarrow> slots_size ds)"
    by (simp add: listing0_def slots_size_simps)
qed (simp_all add: slots_size_simps)

lemma gitree_Some_stop:
  "readdir_loop dirname es listing0 = Inl st \<Longrightarrow>
     gitree dirname (Some es) s = Inl (st, s\<lparr>out := out s @ [Checking dirname]\<rparr>)"
  by (simp add: Let_def)

lemma gitree_Some_tree:
  "readdir_loop dirname es listing0 = Inr ls \<Longrightarrow>
   has_dir_objects ls \<and> has_dir_refs ls \<and> has_file_HEAD ls \<Longrightarrow>
     gitree dirname (Some es) s =
       check_gitree dirname (Some es) (s\<lparr>out := out s @ [Checking dirname]\<rparr>)"
  by (simp add: Let_def)

lemma gitree_Some_walk:
  "readdir_loop dirname es listing0 = Inr ls \<Longrightarrow>
   \<not> (has_dir_objects ls \<and> has_dir_refs ls \<and> has_file_HEAD ls) \<Longrightarrow>
     gitree dirname (Some es) s =
       subdir_loop (subdir ls)
         (subfile_loop dirname (subfile ls) (s\<lparr>out := out s @ [Checking dirname]\<rparr>))"
  by (auto simp: Let_def)

declare gitree.simps(2) [simp del]

section \<open>\<^verbatim>\<open>main\<close>\<close>

text \<open>
  The loop of \<^verbatim>\<open>main\<close> that cuts trailing slashes off \<^verbatim>\<open>argv[1]\<close>, read from
  the last character backwards. It stops at the first character that is not a slash.
  When the string is empty or has slashes only, the loop reads \<^verbatim>\<open>argv[1][-1]\<close>,
  outside the string: \<open>None\<close>.
\<close>

fun strip_rev :: "string \<Rightarrow> string option" where
  "strip_rev [] = None"
| "strip_rev (c # cs) = (if c = CHR ''/'' then strip_rev cs else Some (rev (c # cs)))"

definition strip_slashes :: "string \<Rightarrow> string option" where
  "strip_slashes path = strip_rev (rev path)"

text \<open>
  \<open>argv\<close> is the whole argument vector (\<^verbatim>\<open>argc\<close> is its length) and \<open>t\<close> what
  \<^verbatim>\<open>opendir\<close> yields on the stripped path. The result is the value handed to
  \<^verbatim>\<open>exit\<close> or returned by \<^verbatim>\<open>main\<close>, with the final state; \<open>None\<close> when the
  run leaves defined behaviour.
\<close>

definition main :: "string list \<Rightarrow> dirent list option \<Rightarrow> (int \<times> state) option" where
  "main argv t =
     (if length argv \<noteq> 2 then Some (exit_arg Usage, init)
      else case strip_slashes (argv ! 1) of
             None \<Rightarrow> None
           | Some path \<Rightarrow>
               (case gitree path t init of
                  Inl (Undefined, s) \<Rightarrow> None
                | Inl (Exit f, s) \<Rightarrow> Some (exit_arg f, s)
                | Inr s \<Rightarrow>
                    Some (0, s\<lparr>out := out s @
                                [Check_result (sum_break_layout_rule s)
                                   (sum_dir_name_not_with_git s) (sum_non_bare_git s)
                                   (sum_not_in_git s)]\<rparr>)))"

section \<open>Vocabulary for the statements\<close>

text \<open>
  The entries of a listing other than the two pseudo entries, the directories and the
  regular files among them, and the entries whose name is not in \<open>git_files\<close>.
\<close>

definition children :: "dirent list \<Rightarrow> dirent list" where
  "children es = filter (\<lambda>e. d_name e \<noteq> ''.'' \<and> d_name e \<noteq> ''..'') es"

definition dir_children :: "dirent list \<Rightarrow> dirent list" where
  "dir_children es = filter (\<lambda>e. d_type e = DT_DIR) (children es)"

definition file_children :: "dirent list \<Rightarrow> dirent list" where
  "file_children es = filter (\<lambda>e. d_type e = DT_REG) (children es)"

definition foreign :: "dirent list \<Rightarrow> dirent list" where
  "foreign es = filter (\<lambda>e. d_name e \<notin> set git_files) (children es)"

text \<open>The path \<^verbatim>\<open>gitree\<close> builds for a directory entry, with the listing found there.\<close>

definition slot :: "string \<Rightarrow> dirent \<Rightarrow> string \<times> dirent list option" where
  "slot dirname e = (dirname @ ''/'' @ d_name e, d_sub e)"

text \<open>
  A listing that \<^verbatim>\<open>gitree\<close> reads to its end: no entry of unknown type, and fewer
  directories and fewer regular files than the arrays have slots.
\<close>

definition scan_ok :: "dirent list \<Rightarrow> bool" where
  "scan_ok es \<longleftrightarrow>
     length (dir_children es) < SUBDIRNO \<and> length (file_children es) < SUBFILENO \<and>
     DT_UNKNOWN \<notin> d_type ` set (children es)"

text \<open>The test \<^verbatim>\<open>has_dir_objects && has_dir_refs && has_file_HEAD\<close>, read off the listing.\<close>

definition is_git_tree :: "dirent list \<Rightarrow> bool" where
  "is_git_tree es \<longleftrightarrow>
     ''objects'' \<in> d_name ` set (dir_children es) \<and>
     ''refs'' \<in> d_name ` set (dir_children es) \<and>
     ''HEAD'' \<in> d_name ` set (file_children es)"

text \<open>The state a result ends in, whether the run returned or stopped.\<close>

definition final :: "result \<Rightarrow> state" where
  "final r = (case r of Inl (st, s) \<Rightarrow> s | Inr s \<Rightarrow> s)"

text \<open>
  \<open>plus_state s d\<close>: the output of \<open>d\<close> after that of \<open>s\<close>, the counters added;
  \<open>after s r\<close> does this to the state of a result.
\<close>

definition plus_state :: "state \<Rightarrow> state \<Rightarrow> state" where
  "plus_state s d =
     \<lparr>out = out s @ out d,
      sum_break_layout_rule = sum_break_layout_rule s + sum_break_layout_rule d,
      sum_dir_name_not_with_git = sum_dir_name_not_with_git s + sum_dir_name_not_with_git d,
      sum_non_bare_git = sum_non_bare_git s + sum_non_bare_git d,
      sum_not_in_git = sum_not_in_git s + sum_not_in_git d\<rparr>"

definition after :: "state \<Rightarrow> result \<Rightarrow> result" where
  "after s r =
     (case r of Inl (st, d) \<Rightarrow> Inl (st, plus_state s d) | Inr d \<Rightarrow> Inr (plus_state s d))"

text \<open>
  What the naming tests of \<^verbatim>\<open>check_gitree\<close> add for a path, and what its
  \<^verbatim>\<open>readdir\<close> loop adds for a listing, each as a state that starts empty.
\<close>

definition naming :: "string \<Rightarrow> state" where
  "naming dirname =
     \<lparr>out = (if last_dir dirname = ''.git'' \<and> \<not> in_exception_list dirname
             then [Non_bare dirname] else []) @
            (if \<not> dir_name_with_git dirname then [Name_not_with_git dirname] else []),
      sum_break_layout_rule = 0,
      sum_dir_name_not_with_git = (if \<not> dir_name_with_git dirname then 1 else 0),
      sum_non_bare_git =
        (if last_dir dirname = ''.git'' \<and> \<not> in_exception_list dirname then 1 else 0),
      sum_not_in_git = 0\<rparr>"

definition layout :: "string \<Rightarrow> dirent list \<Rightarrow> state" where
  "layout dirname es =
     \<lparr>out = map (\<lambda>e. Breaks_layout dirname (d_name e)) (foreign es),
      sum_break_layout_rule = int (length (foreign es)),
      sum_dir_name_not_with_git = 0, sum_non_bare_git = 0, sum_not_in_git = 0\<rparr>"

text \<open>The lines a run has added to the output of the state it started in.\<close>

definition emitted :: "state \<Rightarrow> result \<Rightarrow> line list" where
  "emitted s r = drop (length (out s)) (out (final r))"

text \<open>A state that holds some lines and no counts.\<close>

definition unit_state :: "line list \<Rightarrow> state" where
  "unit_state ls = \<lparr>out = ls, sum_break_layout_rule = 0, sum_dir_name_not_with_git = 0,
                     sum_non_bare_git = 0, sum_not_in_git = 0\<rparr>"

text \<open>
  \<open>shape\<close>: the names and types of a listing, without what lies under the entries.
  \<open>hollow\<close>: an entry with the same name and type that cannot be opened.
\<close>

definition shape :: "dirent list \<Rightarrow> (string \<times> d_type) list" where
  "shape es = map (\<lambda>e. (d_name e, d_type e)) es"

definition hollow :: "dirent \<Rightarrow> dirent" where
  "hollow e = Dirent (d_name e) (d_type e) None"

text \<open>The lines that report a file outside a git tree.\<close>

definition is_stray :: "line \<Rightarrow> bool" where
  "is_stray l = (case l of Not_in_git d f \<Rightarrow> True | _ \<Rightarrow> False)"

text \<open>A state whose counter of such files equals the number of such lines.\<close>

definition counted :: "state \<Rightarrow> bool" where
  "counted s \<longleftrightarrow> sum_not_in_git s = int (length (filter is_stray (out s)))"

text \<open>
  How a run ended (the stop, if any), and what it added to the four counters of the
  state it started in.
\<close>

definition ending :: "result \<Rightarrow> stop option" where
  "ending r = (case r of Inl (st, s) \<Rightarrow> Some st | Inr s \<Rightarrow> None)"

definition gained :: "state \<Rightarrow> result \<Rightarrow> int \<times> int \<times> int \<times> int" where
  "gained s r =
     (sum_break_layout_rule (final r) - sum_break_layout_rule s,
      sum_dir_name_not_with_git (final r) - sum_dir_name_not_with_git s,
      sum_non_bare_git (final r) - sum_non_bare_git s,
      sum_not_in_git (final r) - sum_not_in_git s)"

text \<open>
  Two properties of a tree, read off its listings in the order of the walk.
  \<open>clean t\<close>: every directory the walk reaches can be opened and is read to its end
  (a git tree is not looked into any further). \<open>meets f t\<close>, for the stop \<open>f\<close> of a
  directory that cannot be opened or of an entry of unknown type: going through the
  directories in the order of the walk, each read with room left in the two arrays, the
  first that is not in order is one that cannot be opened, or one that holds an entry of
  unknown type, as \<open>f\<close> says.
\<close>

fun clean :: "dirent list option \<Rightarrow> bool"
  and clean_in :: "dirent list \<Rightarrow> bool"
where
  "clean None = False"
| "clean (Some es) = (scan_ok es \<and> (is_git_tree es \<or> clean_in es))"
| "clean_in [] = True"
| "clean_in (Dirent n ty sub # es) =
     ((if n \<noteq> ''.'' \<and> n \<noteq> ''..'' \<and> ty = DT_DIR then clean sub else True) \<and>
      clean_in es)"

fun meets :: "fatal \<Rightarrow> dirent list option \<Rightarrow> bool"
  and meets_in :: "fatal \<Rightarrow> dirent list \<Rightarrow> bool"
where
  "meets f None = (f = Gitree_opendir_failed)"
| "meets f (Some es) =
     (length (dir_children es) < SUBDIRNO \<and> length (file_children es) < SUBFILENO \<and>
      (if DT_UNKNOWN \<in> d_type ` set (children es) then f = Unknown_file_type
       else \<not> is_git_tree es \<and> meets_in f es))"
| "meets_in f [] = False"
| "meets_in f (Dirent n ty sub # es) =
     (if n \<noteq> ''.'' \<and> n \<noteq> ''..'' \<and> ty = DT_DIR
      then meets f sub \<or> clean sub \<and> meets_in f es
      else meets_in f es)"

section \<open>The loops, in closed form\<close>

lemma children_simps [simp]:
  "children [] = []"
  "children (e # es) =
     (if d_name e = ''.'' \<or> d_name e = ''..'' then children es else e # children es)"
  by (simp_all add: children_def)

lemma dir_children_simps [simp]:
  "dir_children [] = []"
  "dir_children (e # es) =
     (if d_name e \<noteq> ''.'' \<and> d_name e \<noteq> ''..'' \<and> d_type e = DT_DIR
      then e # dir_children es else dir_children es)"
  by (simp_all add: dir_children_def)

lemma file_children_simps [simp]:
  "file_children [] = []"
  "file_children (e # es) =
     (if d_name e \<noteq> ''.'' \<and> d_name e \<noteq> ''..'' \<and> d_type e = DT_REG
      then e # file_children es else file_children es)"
  by (simp_all add: file_children_def)

lemma foreign_simps [simp]:
  "foreign [] = []"
  "foreign (e # es) =
     (if d_name e \<noteq> ''.'' \<and> d_name e \<noteq> ''..'' \<and> d_name e \<notin> set git_files
      then e # foreign es else foreign es)"
  by (simp_all add: foreign_def)

lemma check_loop_eq:
  "check_loop dirname es s =
     s\<lparr>sum_break_layout_rule := sum_break_layout_rule s + int (length (foreign es)),
       out := out s @ map (\<lambda>e. Breaks_layout dirname (d_name e)) (foreign es)\<rparr>"
  by (induction es arbitrary: s) simp_all

lemma subfile_loop_eq:
  "subfile_loop dirname fs s =
     (if in_exception_list dirname then s
      else s\<lparr>sum_not_in_git := sum_not_in_git s + int (length fs),
             out := out s @ map (Not_in_git dirname) fs\<rparr>)"
  by (induction fs arbitrary: s) simp_all

text \<open>What a completed \<^verbatim>\<open>readdir\<close> loop of \<^verbatim>\<open>gitree\<close> has collected.\<close>

lemma readdir_loop_Inr:
  "readdir_loop dirname es ls = Inr ls' \<Longrightarrow>
     subdir ls' = subdir ls @ map (slot dirname) (dir_children es) \<and>
     subfile ls' = subfile ls @ map d_name (file_children es) \<and>
     has_dir_objects ls' = (has_dir_objects ls \<or> ''objects'' \<in> d_name ` set (dir_children es)) \<and>
     has_dir_refs ls' = (has_dir_refs ls \<or> ''refs'' \<in> d_name ` set (dir_children es)) \<and>
     has_file_HEAD ls' = (has_file_HEAD ls \<or> ''HEAD'' \<in> d_name ` set (file_children es)) \<and>
     DT_UNKNOWN \<notin> d_type ` set (children es)"
proof (induction es arbitrary: ls)
  case Nil
  then show ?case by simp
next
  case (Cons e es)
  show ?case
  proof (cases "d_name e = ''.'' \<or> d_name e = ''..''")
    case True
    with Cons.prems have "readdir_loop dirname es ls = Inr ls'" by auto
    from Cons.IH [OF this] True show ?thesis by auto
  next
    case False
    note nd = this
    show ?thesis
    proof (cases "d_type e = DT_DIR")
      case True
      let ?ls = "ls\<lparr>has_dir_objects := (has_dir_objects ls \<or> d_name e = ''objects''),
                        has_dir_refs := (has_dir_refs ls \<or> d_name e = ''refs''),
                        subdir := subdir ls @ [(dirname @ ''/'' @ d_name e, d_sub e)]\<rparr>"
      from Cons.prems nd True have "readdir_loop dirname es ?ls = Inr ls'"
        by (simp add: Let_def split: if_splits)
      from Cons.IH [OF this] nd True show ?thesis by (auto simp: slot_def)
    next
      case False
      note ndir = this
      show ?thesis
      proof (cases "d_type e = DT_REG")
        case True
        let ?ls = "ls\<lparr>has_file_HEAD := (has_file_HEAD ls \<or> d_name e = ''HEAD''),
                        subfile := subfile ls @ [d_name e]\<rparr>"
        from Cons.prems nd True have "readdir_loop dirname es ?ls = Inr ls'"
          by (simp add: Let_def split: if_splits)
        from Cons.IH [OF this] nd True show ?thesis by auto
      next
        case False
        with Cons.prems nd ndir
        have "readdir_loop dirname es ls = Inr ls'" "d_type e \<noteq> DT_UNKNOWN"
          by (auto split: if_splits)
        with Cons.IH [OF this(1)] nd ndir False show ?thesis by auto
      qed
    qed
  qed
qed

lemma with_git_len4:
  "(dir_name_with_git dirname \<and> length (last_dir dirname) = 4) = (last_dir dirname = ''.git'')"
  by (auto simp: dir_name_with_git_def Let_def)

lemma exact_with_git: "last_dir dirname = ''.git'' \<Longrightarrow> dir_name_with_git dirname"
  by (simp add: dir_name_with_git_def)

lemma check_gitree_unfold:
  "check_gitree dirname t s =
     (let s1 = (if last_dir dirname = ''.git'' \<and> \<not> in_exception_list dirname
                then s\<lparr>sum_non_bare_git := sum_non_bare_git s + 1,
                       out := out s @ [Non_bare dirname]\<rparr>
                else s);
          s2 = (if \<not> dir_name_with_git dirname
                then s1\<lparr>sum_dir_name_not_with_git := sum_dir_name_not_with_git s1 + 1,
                        out := out s1 @ [Name_not_with_git dirname]\<rparr>
                else s1)
      in case t of
           None \<Rightarrow> Inl (Exit Check_gitree_opendir_failed, s2)
         | Some es \<Rightarrow> Inr (check_loop dirname es s2))"
  unfolding check_gitree_def Let_def with_git_len4 by simp

lemma naming_tests:
  "(let s1 = (if last_dir dirname = ''.git'' \<and> \<not> in_exception_list dirname
              then s\<lparr>sum_non_bare_git := sum_non_bare_git s + 1,
                     out := out s @ [Non_bare dirname]\<rparr>
              else s)
    in (if \<not> dir_name_with_git dirname
        then s1\<lparr>sum_dir_name_not_with_git := sum_dir_name_not_with_git s1 + 1,
                out := out s1 @ [Name_not_with_git dirname]\<rparr>
        else s1)) = plus_state s (naming dirname)"
  by (simp add: Let_def plus_state_def naming_def)

lemma check_loop_layout: "check_loop dirname es s = plus_state s (layout dirname es)"
  by (simp add: check_loop_eq plus_state_def layout_def)

lemma check_gitree_Some:
  "check_gitree dirname (Some es) s =
     Inr (plus_state (plus_state s (naming dirname)) (layout dirname es))"
  using naming_tests [of dirname s]
  by (simp add: check_gitree_unfold check_loop_layout Let_def)

lemma check_gitree_None:
  "check_gitree dirname None s =
     Inl (Exit Check_gitree_opendir_failed, plus_state s (naming dirname))"
  using naming_tests [of dirname s]
  by (simp add: check_gitree_unfold Let_def)

lemma plus_state_assoc:
  "plus_state (plus_state a b) c = plus_state a (plus_state b c)"
  by (simp add: plus_state_def)

section \<open>The start state does not matter\<close>

lemma plus_state_init [simp]: "plus_state s init = s"
  by (simp add: plus_state_def init_def)


lemma check_gitree_plus:
  "check_gitree dirname t (plus_state s d) = after s (check_gitree dirname t d)"
  by (cases t) (simp_all add: check_gitree_Some check_gitree_None after_def plus_state_assoc)

lemma checking_plus:
  "(plus_state s d)\<lparr>out := out (plus_state s d) @ [l]\<rparr> = plus_state s (d\<lparr>out := out d @ [l]\<rparr>)"
  by (simp add: plus_state_def)

lemma subfile_loop_plus:
  "subfile_loop dirname fs (plus_state s d) = plus_state s (subfile_loop dirname fs d)"
  by (simp add: subfile_loop_eq plus_state_def)

lemma gitree_plus:
  "gitree dirname t (plus_state s d) = after s (gitree dirname t d)"
  "subdir_loop ds (plus_state s d) = after s (subdir_loop ds d)"
proof (induction dirname t d and ds d rule: gitree_subdir_loop.induct)
  case (1 dirname s)
  show ?case by (simp add: after_def)
next
  case (2 dirname es d)
  show ?case
  proof (cases "readdir_loop dirname es listing0")
    case (Inl st)
    then show ?thesis
      by (simp add: gitree_Some_stop after_def checking_plus)
  next
    case (Inr ls)
    show ?thesis
    proof (cases "has_dir_objects ls \<and> has_dir_refs ls \<and> has_file_HEAD ls")
      case True
      with Inr show ?thesis
        by (simp add: gitree_Some_tree checking_plus check_gitree_plus)
    next
      case False
      from "2.IH" [OF refl Inr False] show ?thesis
        by (simp add: gitree_Some_walk [OF Inr False] checking_plus subfile_loop_plus)
    qed
  qed
next
  case (3 s)
  show ?case by (simp add: after_def)
next
  case (4 p t ds d)
  show ?case
  proof (cases "gitree p t d")
    case (Inl x)
    with "4.IH"(1) show ?thesis by (cases x) (simp add: after_def)
  next
    case (Inr d')
    with "4.IH"(1) "4.IH"(2) [OF Inr] show ?thesis by (simp add: after_def)
  qed
qed

section \<open>A visit, read off the listing\<close>

lemma readdir_loop_completes:
  "length (subdir ls) + length (dir_children es) < SUBDIRNO \<Longrightarrow>
   length (subfile ls) + length (file_children es) < SUBFILENO \<Longrightarrow>
   DT_UNKNOWN \<notin> d_type ` set (children es) \<Longrightarrow>
     \<exists>ls'. readdir_loop dirname es ls = Inr ls'"
proof (induction es arbitrary: ls)
  case Nil
  show ?case by simp
next
  case (Cons e es)
  show ?case
  proof (cases "d_name e = ''.'' \<or> d_name e = ''..''")
    case True
    with Cons.prems Cons.IH [of ls] show ?thesis by auto
  next
    case False
    note nd = this
    show ?thesis
    proof (cases "d_type e = DT_DIR")
      case True
      let ?ls = "ls\<lparr>has_dir_objects := (has_dir_objects ls \<or> d_name e = ''objects''),
                        has_dir_refs := (has_dir_refs ls \<or> d_name e = ''refs''),
                        subdir := subdir ls @ [(dirname @ ''/'' @ d_name e, d_sub e)]\<rparr>"
      from Cons.prems nd True have "\<exists>ls'. readdir_loop dirname es ?ls = Inr ls'"
        by (intro Cons.IH) auto
      with Cons.prems nd True show ?thesis by (auto simp: Let_def)
    next
      case False
      note ndir = this
      show ?thesis
      proof (cases "d_type e = DT_REG")
        case True
        let ?ls = "ls\<lparr>has_file_HEAD := (has_file_HEAD ls \<or> d_name e = ''HEAD''),
                        subfile := subfile ls @ [d_name e]\<rparr>"
        from Cons.prems nd True have "\<exists>ls'. readdir_loop dirname es ?ls = Inr ls'"
          by (intro Cons.IH) auto
        with Cons.prems nd True show ?thesis by (auto simp: Let_def)
      next
        case False
        with Cons.prems nd ndir have "\<exists>ls'. readdir_loop dirname es ls = Inr ls'"
          by (intro Cons.IH) auto
        with Cons.prems nd ndir False show ?thesis by auto
      qed
    qed
  qed
qed

lemma scan_ok_readdir_loop:
  assumes "scan_ok es"
  obtains ls where "readdir_loop dirname es listing0 = Inr ls"
    and "subdir ls = map (slot dirname) (dir_children es)"
    and "subfile ls = map d_name (file_children es)"
    and "(has_dir_objects ls \<and> has_dir_refs ls \<and> has_file_HEAD ls) = is_git_tree es"
proof -
  from assms have "\<exists>ls'. readdir_loop dirname es listing0 = Inr ls'"
    by (intro readdir_loop_completes) (simp_all add: scan_ok_def listing0_def)
  then obtain ls where ls: "readdir_loop dirname es listing0 = Inr ls" ..
  from readdir_loop_Inr [OF ls] have
    "subdir ls = map (slot dirname) (dir_children es)"
    "subfile ls = map d_name (file_children es)"
    "(has_dir_objects ls \<and> has_dir_refs ls \<and> has_file_HEAD ls) = is_git_tree es"
    by (simp_all add: listing0_def is_git_tree_def)
  with ls that show thesis by blast
qed

lemma gitree_tree:
  assumes "scan_ok es" and "is_git_tree es"
  shows "gitree dirname (Some es) s =
           check_gitree dirname (Some es) (s\<lparr>out := out s @ [Checking dirname]\<rparr>)"
proof -
  from assms(1) obtain ls where ls: "readdir_loop dirname es listing0 = Inr ls"
    and g: "(has_dir_objects ls \<and> has_dir_refs ls \<and> has_file_HEAD ls) = is_git_tree es"
    by (rule scan_ok_readdir_loop)
  from g assms(2) have "has_dir_objects ls \<and> has_dir_refs ls \<and> has_file_HEAD ls" by simp
  from gitree_Some_tree [OF ls this] show ?thesis .
qed

lemma gitree_walk:
  assumes "scan_ok es" and "\<not> is_git_tree es"
  shows "gitree dirname (Some es) s =
           subdir_loop (map (slot dirname) (dir_children es))
             (subfile_loop dirname (map d_name (file_children es))
                (s\<lparr>out := out s @ [Checking dirname]\<rparr>))"
proof -
  from assms(1) obtain ls where ls: "readdir_loop dirname es listing0 = Inr ls"
    and sd: "subdir ls = map (slot dirname) (dir_children es)"
    and sf: "subfile ls = map d_name (file_children es)"
    and g: "(has_dir_objects ls \<and> has_dir_refs ls \<and> has_file_HEAD ls) = is_git_tree es"
    by (rule scan_ok_readdir_loop)
  from g assms(2) have "\<not> (has_dir_objects ls \<and> has_dir_refs ls \<and> has_file_HEAD ls)" by simp
  from gitree_Some_walk [OF ls this] sd sf show ?thesis by simp
qed

lemma emitted_plus [simp]:
  "emitted s (Inr (plus_state s d)) = out d"
  "emitted s (Inl (st, plus_state s d)) = out d"
  by (simp_all add: emitted_def final_def plus_state_def)

section \<open>Repeated runs\<close>

lemma final_after: "final (after s r) = plus_state s (final r)"
  by (cases r) (auto simp: after_def final_def)

lemma out_plus_state: "out (plus_state a b) = out a @ out b"
  by (simp add: plus_state_def)

lemma emitted_gitree: "emitted s (gitree p t s) = out (final (gitree p t init))"
  using gitree_plus(1) [of p t s init]
  by (simp add: emitted_def final_after out_plus_state)

lemma emitted_subdir_loop: "emitted s (subdir_loop ds s) = out (final (subdir_loop ds init))"
  using gitree_plus(2) [of ds s init]
  by (simp add: emitted_def final_after out_plus_state)

lemma ending_after: "ending (after s r) = ending r"
  by (cases r) (auto simp: after_def ending_def)

lemma gained_after: "gained s (after s r) = gained init r"
  by (simp add: gained_def final_after plus_state_def init_def)

text \<open>
  Claim C9. Two runs of the walker over the same unmodified tree produce the same
  warning records in the same order and the same final counts. A run is a function of the
  path and the listings alone, and the state it starts in only carries what was there
  before: from any state \<open>s\<close> the walker appends to the output of \<open>s\<close> the lines, and
  adds to the counters of \<open>s\<close> the amounts, that the run from the initial state
  produces. Hence two runs over the same tree, from whatever states \<open>s\<close> and \<open>s'\<close>,
  print the same lines in the same order, add the same amounts to the four counters, and
  return or stop in the same way; from the same state they end in the same state.
\<close>

theorem walk_independent_of_start:
  "gitree dirname t s = after s (gitree dirname t init) \<and>
   emitted s (gitree dirname t s) = emitted s' (gitree dirname t s') \<and>
   gained s (gitree dirname t s) = gained s' (gitree dirname t s') \<and>
   ending (gitree dirname t s) = ending (gitree dirname t s')"
proof -
  have a: "gitree dirname t u = after u (gitree dirname t init)" for u
    using gitree_plus(1) [of dirname t u init] by simp
  have e: "emitted u (gitree dirname t u) = out (final (gitree dirname t init))" for u
    by (rule emitted_gitree)
  have c: "gained u (gitree dirname t u) = gained init (gitree dirname t init)" for u
    using gained_after [of u "gitree dirname t init"] by (simp only: a [of u, symmetric])
  have n: "ending (gitree dirname t u) = ending (gitree dirname t init)" for u
    using ending_after [of u "gitree dirname t init"] by (simp only: a [of u, symmetric])
  have "emitted s (gitree dirname t s) = emitted s' (gitree dirname t s')"
    by (simp only: e)
  moreover have "gained s (gitree dirname t s) = gained s' (gitree dirname t s')"
    using c [of s] c [of s'] by (rule trans [OF _ sym])
  moreover have "ending (gitree dirname t s) = ending (gitree dirname t s')"
    using n [of s] n [of s'] by (rule trans [OF _ sym])
  ultimately show ?thesis
    using a [of s] by (intro conjI)
qed

theorem walk_independent_of_start_witness:
  "gitree ''/x'' (Some [Dirent ''f'' DT_REG None, Dirent ''objects'' DT_DIR (Some [])])
     \<lparr>out = [Checking ''/w''], sum_break_layout_rule = 1, sum_dir_name_not_with_git = 2,
      sum_non_bare_git = 3, sum_not_in_git = 4\<rparr> =
   Inr \<lparr>out = [Checking ''/w'', Checking ''/x'', Not_in_git ''/x'' ''f'',
              Checking ''/x/objects''],
        sum_break_layout_rule = 1, sum_dir_name_not_with_git = 2,
        sum_non_bare_git = 3, sum_not_in_git = 5\<rparr>"
  using walk_independent_of_start
    [of "''/x''" "Some [Dirent ''f'' DT_REG None, Dirent ''objects'' DT_DIR (Some [])]"
        "\<lparr>out = [Checking ''/w''], sum_break_layout_rule = 1,
          sum_dir_name_not_with_git = 2, sum_non_bare_git = 3, sum_not_in_git = 4\<rparr>",
     THEN conjunct1]
  by (simp add: gitree.simps after_def plus_state_def init_def listing0_def Let_def
        SUBDIRNO_def SUBFILENO_def in_exception_list_def exception_list_def)

lemma hollow_sel [simp]: "d_name (hollow e) = d_name e" "d_type (hollow e) = d_type e"
  by (simp_all add: hollow_def)

lemma children_hollow: "children (map hollow es) = map hollow (children es)"
  by (induction es) simp_all

lemma dir_children_hollow: "dir_children (map hollow es) = map hollow (dir_children es)"
  by (induction es) simp_all

lemma file_children_hollow: "file_children (map hollow es) = map hollow (file_children es)"
  by (induction es) simp_all

lemma foreign_hollow: "foreign (map hollow es) = map hollow (foreign es)"
  by (induction es) simp_all

lemma scan_ok_hollow: "scan_ok (map hollow es) = scan_ok es"
  by (simp add: scan_ok_def children_hollow dir_children_hollow file_children_hollow image_image)

lemma is_git_tree_hollow: "is_git_tree (map hollow es) = is_git_tree es"
  by (simp add: is_git_tree_def dir_children_hollow file_children_hollow image_image)

lemma layout_hollow: "layout dirname (map hollow es) = layout dirname es"
  by (simp add: layout_def foreign_hollow comp_def)

lemma shape_hollow: "shape es' = shape es \<Longrightarrow> map hollow es' = map hollow es"
proof -
  have "hollow = (\<lambda>(n, ty). Dirent n ty None) \<circ> (\<lambda>e. (d_name e, d_type e))"
    by (simp add: fun_eq_iff hollow_def)
  then have "map hollow xs = map (\<lambda>(n, ty). Dirent n ty None) (shape xs)" for xs
    by (simp add: shape_def)
  then show "shape es' = shape es \<Longrightarrow> map hollow es' = map hollow es"
    by simp
qed

lemma checking_unit: "s\<lparr>out := out s @ [l]\<rparr> = plus_state s (unit_state [l])"
  by (simp add: plus_state_def unit_state_def)

lemma gitree_tree_closed:
  assumes "scan_ok es" and "is_git_tree es"
  shows "gitree dirname (Some es) s =
           Inr (plus_state s
             (plus_state (unit_state [Checking dirname])
                (plus_state (naming dirname) (layout dirname es))))"
  using gitree_tree [OF assms, of dirname s]
  by (simp add: checking_unit check_gitree_Some plus_state_assoc)

lemma gitree_tree_hollow:
  assumes "scan_ok es" and "is_git_tree es"
  shows "gitree dirname (Some (map hollow es)) s = gitree dirname (Some es) s"
proof -
  from assms have "scan_ok (map hollow es)" "is_git_tree (map hollow es)"
    by (simp_all add: scan_ok_hollow is_git_tree_hollow)
  from gitree_tree_closed [OF this] gitree_tree_closed [OF assms] show ?thesis
    by (simp add: layout_hollow)
qed

lemma gitree_tree_shape:
  assumes "scan_ok es" and "is_git_tree es" and "shape es' = shape es"
  shows "gitree dirname (Some es') s = gitree dirname (Some es) s"
proof -
  from shape_hollow [OF assms(3)] have h: "map hollow es' = map hollow es" .
  from assms(1,2) have "scan_ok (map hollow es)" "is_git_tree (map hollow es)"
    by (simp_all add: scan_ok_hollow is_git_tree_hollow)
  with h scan_ok_hollow [of es'] is_git_tree_hollow [of es']
  have "scan_ok es'" "is_git_tree es'"
    by simp_all
  from gitree_tree_hollow [OF this, of dirname s] gitree_tree_hollow [OF assms(1,2), of dirname s] h
  show ?thesis by simp
qed

lemma out_naming: "set (out (naming dirname)) \<subseteq> {Non_bare dirname, Name_not_with_git dirname}"
  by (auto simp: naming_def)

declare out_plus_state [simp]

lemma out_unit [simp]: "out (unit_state ls) = ls"
  by (simp add: unit_state_def)

lemma out_layout [simp]:
  "out (layout dirname es) = map (\<lambda>e. Breaks_layout dirname (d_name e)) (foreign es)"
  by (simp add: layout_def)

lemma final_simps [simp]: "final (Inr s) = s" "final (Inl (st, s)) = s"
  by (simp_all add: final_def)

lemma count_list_Breaks:
  "count_list (map (\<lambda>e. Breaks_layout dirname (d_name e)) es) (Breaks_layout dirname n) =
     count_list (map d_name es) n"
  by (induction es) simp_all

lemma count_list_foreign:
  "count_list (map d_name (foreign es)) n =
     (if n \<in> set git_files \<or> n = ''.'' \<or> n = ''..'' then 0
      else count_list (map d_name es) n)"
  by (induction es) auto

lemma count_list_naming: "count_list (out (naming dirname)) (Breaks_layout d n) = 0"
  by (simp add: naming_def)

section \<open>The layout check\<close>

text \<open>
  Claim C4. Take a directory that the walker reads to the end and finds to be a git tree.
  The visit returns, and after the line that announces the directory and the naming
  warnings (of which there are at most the two for this path) it prints one layout
  warning for each entry, in listing order, that is neither \<open>.\<close> nor \<open>..\<close> and
  whose name is not in \<open>git_files\<close> (compared as whole strings, so case matters), and
  nothing else; the layout counter grows by the number of those entries. Counted by
  name: a name in \<open>git_files\<close> gets no layout warning, any other name gets as many
  as there are entries of that name (one, in a directory, where names are unique).
  Nothing under an entry is looked at: the visit gives the same result for every listing
  with the same names and types.
\<close>

theorem layout_check_of_git_tree:
  assumes "scan_ok es" and "is_git_tree es"
  shows "(\<exists>nm. set nm \<subseteq> {Non_bare dirname, Name_not_with_git dirname} \<and>
            gitree dirname (Some es) s =
              Inr (final (gitree dirname (Some es) s)) \<and>
            emitted s (gitree dirname (Some es) s) =
              Checking dirname # nm @
                map (\<lambda>e. Breaks_layout dirname (d_name e)) (foreign es)) \<and>
         sum_break_layout_rule (final (gitree dirname (Some es) s)) =
           sum_break_layout_rule s + int (length (foreign es)) \<and>
         (\<forall>n. count_list (emitted s (gitree dirname (Some es) s)) (Breaks_layout dirname n) =
            (if n \<in> set git_files \<or> n = ''.'' \<or> n = ''..'' then 0
             else count_list (map d_name es) n)) \<and>
         (\<forall>es'. shape es' = shape es \<longrightarrow>
            gitree dirname (Some es') s = gitree dirname (Some es) s)"
proof -
  note c = gitree_tree_closed [OF assms, of dirname s]
  have 1: "\<exists>nm. set nm \<subseteq> {Non_bare dirname, Name_not_with_git dirname} \<and>
            gitree dirname (Some es) s =
              Inr (final (gitree dirname (Some es) s)) \<and>
            emitted s (gitree dirname (Some es) s) =
              Checking dirname # nm @
                map (\<lambda>e. Breaks_layout dirname (d_name e)) (foreign es)"
    apply (rule exI [of _ "out (naming dirname)"])
    apply (simp add: c out_naming)
    done
  have 2: "sum_break_layout_rule (final (gitree dirname (Some es) s)) =
           sum_break_layout_rule s + int (length (foreign es))"
    by (simp add: c plus_state_def unit_state_def naming_def layout_def)
  have 3: "count_list (emitted s (gitree dirname (Some es) s)) (Breaks_layout dirname n) =
            (if n \<in> set git_files \<or> n = ''.'' \<or> n = ''..'' then 0
             else count_list (map d_name es) n)" for n
  proof -
    have "emitted s (gitree dirname (Some es) s) =
            Checking dirname # out (naming dirname) @
              map (\<lambda>e. Breaks_layout dirname (d_name e)) (foreign es)"
      by (simp add: c)
    then show ?thesis
      by (simp only: count_list.simps count_list_append count_list_naming count_list_Breaks
            count_list_foreign line.distinct if_False add_0)
  qed
  have 4: "\<forall>es'. shape es' = shape es \<longrightarrow>
            gitree dirname (Some es') s = gitree dirname (Some es) s"
    by (intro allI impI) (rule gitree_tree_shape [OF assms])
  show ?thesis
    apply (rule conjI [OF 1])
    apply (rule conjI [OF 2])
    apply (rule conjI [OF _ 4])
    apply (rule allI)
    apply (rule 3)
    done
qed


theorem layout_check_of_git_tree_witness:
  "scan_ok [Dirent ''objects'' DT_DIR (Some []), Dirent ''refs'' DT_DIR (Some []),
            Dirent ''HEAD'' DT_REG None, Dirent ''config'' DT_REG None,
            Dirent ''junk.bin'' DT_REG None, Dirent ''Config'' DT_LNK None] \<and>
   is_git_tree [Dirent ''objects'' DT_DIR (Some []), Dirent ''refs'' DT_DIR (Some []),
            Dirent ''HEAD'' DT_REG None, Dirent ''config'' DT_REG None,
            Dirent ''junk.bin'' DT_REG None, Dirent ''Config'' DT_LNK None] \<and>
   emitted init (gitree ''/x/bare.git''
     (Some [Dirent ''objects'' DT_DIR (Some []), Dirent ''refs'' DT_DIR (Some []),
            Dirent ''HEAD'' DT_REG None, Dirent ''config'' DT_REG None,
            Dirent ''junk.bin'' DT_REG None, Dirent ''Config'' DT_LNK None]) init) =
     [Checking ''/x/bare.git'', Breaks_layout ''/x/bare.git'' ''junk.bin'',
      Breaks_layout ''/x/bare.git'' ''Config''] \<and>
   sum_break_layout_rule (final (gitree ''/x/bare.git''
     (Some [Dirent ''objects'' DT_DIR (Some []), Dirent ''refs'' DT_DIR (Some []),
            Dirent ''HEAD'' DT_REG None, Dirent ''config'' DT_REG None,
            Dirent ''junk.bin'' DT_REG None, Dirent ''Config'' DT_LNK None]) init)) = 2"
proof -
  let ?es = "[Dirent ''objects'' DT_DIR (Some []), Dirent ''refs'' DT_DIR (Some []),
            Dirent ''HEAD'' DT_REG None, Dirent ''config'' DT_REG None,
            Dirent ''junk.bin'' DT_REG None, Dirent ''Config'' DT_LNK None]"
  have h1: "scan_ok ?es" by (simp add: scan_ok_def SUBDIRNO_def SUBFILENO_def)
  have h2: "is_git_tree ?es" by (simp add: is_git_tree_def)
  have n: "naming ''/x/bare.git'' = unit_state []"
    by (simp add: naming_def unit_state_def last_dir_def dir_name_with_git_def)
  have e: "emitted init (gitree ''/x/bare.git'' (Some ?es) init) =
     [Checking ''/x/bare.git'', Breaks_layout ''/x/bare.git'' ''junk.bin'',
      Breaks_layout ''/x/bare.git'' ''Config'']"
    by (simp add: gitree_tree_closed [OF h1 h2] n git_files_def)
  from layout_check_of_git_tree [OF h1 h2, of "''/x/bare.git''" init]
  have "sum_break_layout_rule (final (gitree ''/x/bare.git'' (Some ?es) init)) =
          sum_break_layout_rule init + int (length (foreign ?es))"
    by (rule conjunct2 [THEN conjunct1])
  then have c: "sum_break_layout_rule (final (gitree ''/x/bare.git'' (Some ?es) init)) = 2"
    by (simp add: init_def git_files_def)
  from h1 h2 e c show ?thesis by (intro conjI)
qed

lemma not_with_git_not_exact: "\<not> dir_name_with_git dirname \<Longrightarrow> last_dir dirname \<noteq> ''.git''"
  using exact_with_git by blast

section \<open>The naming tests\<close>

text \<open>
  Claim C3, as amended. Take a directory that the walker reads to the end and finds to be
  a git tree, and whose last path component does not end with \<open>.git\<close>. The visit
  prints the announcing line, then the warning that the name is not terminated with
  \<open>.git\<close>, then the layout warnings, and the counter of that warning grows by one.
  This holds for every path: \<^verbatim>\<open>check_gitree\<close> does not consult the exception list
  for this warning (it does so only for the non-bare warning), so a path that matches an
  entry of the exception list is warned about and counted like any other.
\<close>

theorem name_not_with_git_warning:
  assumes "scan_ok es" and "is_git_tree es" and "\<not> dir_name_with_git dirname"
  shows "emitted s (gitree dirname (Some es) s) =
           Checking dirname # Name_not_with_git dirname #
             map (\<lambda>e. Breaks_layout dirname (d_name e)) (foreign es) \<and>
         sum_dir_name_not_with_git (final (gitree dirname (Some es) s)) =
           sum_dir_name_not_with_git s + 1"
proof -
  from assms(3) have n: "naming dirname =
      \<lparr>out = [Name_not_with_git dirname], sum_break_layout_rule = 0,
       sum_dir_name_not_with_git = 1, sum_non_bare_git = 0, sum_not_in_git = 0\<rparr>"
    by (simp add: naming_def not_with_git_not_exact)
  have "emitted s (gitree dirname (Some es) s) =
           Checking dirname # Name_not_with_git dirname #
             map (\<lambda>e. Breaks_layout dirname (d_name e)) (foreign es)"
    by (simp add: gitree_tree_closed [OF assms(1,2)] n)
  moreover have "sum_dir_name_not_with_git (final (gitree dirname (Some es) s)) =
           sum_dir_name_not_with_git s + 1"
    by (simp add: gitree_tree_closed [OF assms(1,2)] n plus_state_def unit_state_def layout_def)
  ultimately show ?thesis by (rule conjI)
qed

theorem name_not_with_git_warning_witness:
  "scan_ok [Dirent ''objects'' DT_DIR None, Dirent ''refs'' DT_DIR None,
            Dirent ''HEAD'' DT_REG None] \<and>
   is_git_tree [Dirent ''objects'' DT_DIR None, Dirent ''refs'' DT_DIR None,
            Dirent ''HEAD'' DT_REG None] \<and>
   \<not> dir_name_with_git ''/git/android/.repo/manifests'' \<and>
   in_exception_list ''/git/android/.repo/manifests'' \<and>
   emitted init (gitree ''/git/android/.repo/manifests''
     (Some [Dirent ''objects'' DT_DIR None, Dirent ''refs'' DT_DIR None,
            Dirent ''HEAD'' DT_REG None]) init) =
     [Checking ''/git/android/.repo/manifests'',
      Name_not_with_git ''/git/android/.repo/manifests''] \<and>
   sum_dir_name_not_with_git (final (gitree ''/git/android/.repo/manifests''
     (Some [Dirent ''objects'' DT_DIR None, Dirent ''refs'' DT_DIR None,
            Dirent ''HEAD'' DT_REG None]) init)) = 1"
proof -
  let ?es = "[Dirent ''objects'' DT_DIR None, Dirent ''refs'' DT_DIR None,
            Dirent ''HEAD'' DT_REG None]"
  have h1: "scan_ok ?es" by (simp add: scan_ok_def SUBDIRNO_def SUBFILENO_def)
  have h2: "is_git_tree ?es" by (simp add: is_git_tree_def)
  have h3: "\<not> dir_name_with_git ''/git/android/.repo/manifests''"
    by (simp add: dir_name_with_git_def last_dir_def)
  have x: "in_exception_list ''/git/android/.repo/manifests''"
    by (simp add: in_exception_list_def exception_list_def)
  from name_not_with_git_warning [OF h1 h2 h3, of init] h1 h2 h3 x
  show ?thesis by (simp add: git_files_def init_def)
qed

text \<open>
  The claim as stated fails: \<open>/git/android/.repo/manifests\<close> matches the exception
  list, its name does not end with \<open>.git\<close>, and the warning is printed all the same.
\<close>

theorem bad_name_exempt_counterexample:
  "in_exception_list ''/git/android/.repo/manifests'' \<and>
   \<not> dir_name_with_git ''/git/android/.repo/manifests'' \<and>
   gitree ''/git/android/.repo/manifests''
     (Some [Dirent ''objects'' DT_DIR None, Dirent ''refs'' DT_DIR None,
            Dirent ''HEAD'' DT_REG None]) init =
     Inr \<lparr>out = [Checking ''/git/android/.repo/manifests'',
                 Name_not_with_git ''/git/android/.repo/manifests''],
          sum_break_layout_rule = 0, sum_dir_name_not_with_git = 1,
          sum_non_bare_git = 0, sum_not_in_git = 0\<rparr>"
  by (simp add: gitree.simps Let_def listing0_def init_def SUBDIRNO_def SUBFILENO_def
        check_gitree_def dir_name_with_git_def last_dir_def in_exception_list_def
        exception_list_def git_files_def)

text \<open>
  Claim C6. In the visit of a git tree the naming outcomes exclude one another. The
  non-bare warning for the path is printed only when the last component is exactly
  \<open>.git\<close>; the warning that the name is not terminated with \<open>.git\<close> only when the
  last component does not end with \<open>.git\<close>; a last component that ends with
  \<open>.git\<close> and is longer gets neither. The two warnings are never both printed, at
  most one of their two counters changes, and no two of the three conditions on the
  last component hold together.
\<close>

theorem naming_outcomes_exclusive:
  assumes "scan_ok es" and "is_git_tree es"
  shows "(Non_bare dirname \<in> set (emitted s (gitree dirname (Some es) s)) \<longrightarrow>
            last_dir dirname = ''.git'') \<and>
         (Name_not_with_git dirname \<in> set (emitted s (gitree dirname (Some es) s)) \<longrightarrow>
            \<not> dir_name_with_git dirname) \<and>
         (dir_name_with_git dirname \<and> 4 < length (last_dir dirname) \<longrightarrow>
            Non_bare dirname \<notin> set (emitted s (gitree dirname (Some es) s)) \<and>
            Name_not_with_git dirname \<notin> set (emitted s (gitree dirname (Some es) s))) \<and>
         \<not> (Non_bare dirname \<in> set (emitted s (gitree dirname (Some es) s)) \<and>
            Name_not_with_git dirname \<in> set (emitted s (gitree dirname (Some es) s))) \<and>
         (sum_non_bare_git (final (gitree dirname (Some es) s)) = sum_non_bare_git s \<or>
          sum_dir_name_not_with_git (final (gitree dirname (Some es) s)) =
            sum_dir_name_not_with_git s) \<and>
         \<not> (last_dir dirname = ''.git'' \<and> \<not> dir_name_with_git dirname) \<and>
         \<not> (last_dir dirname = ''.git'' \<and>
              dir_name_with_git dirname \<and> 4 < length (last_dir dirname)) \<and>
         \<not> (\<not> dir_name_with_git dirname \<and>
              dir_name_with_git dirname \<and> 4 < length (last_dir dirname))"
proof -
  have e: "emitted s (gitree dirname (Some es) s) =
             Checking dirname # out (naming dirname) @
               map (\<lambda>e. Breaks_layout dirname (d_name e)) (foreign es)"
    by (simp add: gitree_tree_closed [OF assms])
  have nb: "Non_bare dirname \<in> set (emitted s (gitree dirname (Some es) s)) \<longleftrightarrow>
              last_dir dirname = ''.git'' \<and> \<not> in_exception_list dirname"
    unfolding e by (auto simp: naming_def)
  have nn: "Name_not_with_git dirname \<in> set (emitted s (gitree dirname (Some es) s)) \<longleftrightarrow>
              \<not> dir_name_with_git dirname"
    unfolding e by (auto simp: naming_def)
  have c: "sum_non_bare_git (final (gitree dirname (Some es) s)) = sum_non_bare_git s \<or>
          sum_dir_name_not_with_git (final (gitree dirname (Some es) s)) =
            sum_dir_name_not_with_git s"
    using exact_with_git [of dirname]
    by (auto simp: gitree_tree_closed [OF assms] plus_state_def unit_state_def naming_def
          layout_def)
  have l: "last_dir dirname = ''.git'' \<Longrightarrow> \<not> 4 < length (last_dir dirname)"
    by simp
  show ?thesis
    unfolding nb nn using c l exact_with_git [of dirname] by blast
qed

theorem naming_outcomes_exclusive_witness:
  "scan_ok [Dirent ''objects'' DT_DIR None, Dirent ''refs'' DT_DIR None,
            Dirent ''HEAD'' DT_REG None] \<and>
   is_git_tree [Dirent ''objects'' DT_DIR None, Dirent ''refs'' DT_DIR None,
            Dirent ''HEAD'' DT_REG None] \<and>
   emitted init (gitree ''/x/work/.git''
     (Some [Dirent ''objects'' DT_DIR None, Dirent ''refs'' DT_DIR None,
            Dirent ''HEAD'' DT_REG None]) init) =
     [Checking ''/x/work/.git'', Non_bare ''/x/work/.git''] \<and>
   last_dir ''/x/work/.git'' = ''.git'' \<and>
   emitted init (gitree ''/x/work''
     (Some [Dirent ''objects'' DT_DIR None, Dirent ''refs'' DT_DIR None,
            Dirent ''HEAD'' DT_REG None]) init) =
     [Checking ''/x/work'', Name_not_with_git ''/x/work''] \<and>
   \<not> dir_name_with_git ''/x/work'' \<and>
   dir_name_with_git ''/x/bare.git'' \<and> 4 < length (last_dir ''/x/bare.git'') \<and>
   Non_bare ''/x/bare.git'' \<notin> set (emitted init (gitree ''/x/bare.git''
     (Some [Dirent ''objects'' DT_DIR None, Dirent ''refs'' DT_DIR None,
            Dirent ''HEAD'' DT_REG None]) init)) \<and>
   Name_not_with_git ''/x/bare.git'' \<notin> set (emitted init (gitree ''/x/bare.git''
     (Some [Dirent ''objects'' DT_DIR None, Dirent ''refs'' DT_DIR None,
            Dirent ''HEAD'' DT_REG None]) init))"
proof -
  let ?es = "[Dirent ''objects'' DT_DIR None, Dirent ''refs'' DT_DIR None,
            Dirent ''HEAD'' DT_REG None]"
  have h1: "scan_ok ?es" by (simp add: scan_ok_def SUBDIRNO_def SUBFILENO_def)
  have h2: "is_git_tree ?es" by (simp add: is_git_tree_def)
  have e1: "emitted init (gitree ''/x/work/.git'' (Some ?es) init) =
              [Checking ''/x/work/.git'', Non_bare ''/x/work/.git'']"
    by (simp add: gitree_tree_closed [OF h1 h2] naming_def last_dir_def dir_name_with_git_def
          in_exception_list_def exception_list_def git_files_def)
  have e2: "emitted init (gitree ''/x/work'' (Some ?es) init) =
              [Checking ''/x/work'', Name_not_with_git ''/x/work'']"
    by (simp add: gitree_tree_closed [OF h1 h2] naming_def last_dir_def dir_name_with_git_def
          in_exception_list_def exception_list_def git_files_def)
  have g: "dir_name_with_git ''/x/bare.git'' \<and> 4 < length (last_dir ''/x/bare.git'')"
    by (simp add: last_dir_def dir_name_with_git_def)
  note t1 = naming_outcomes_exclusive [OF h1 h2, of "''/x/work/.git''" init]
  note t2 = naming_outcomes_exclusive [OF h1 h2, of "''/x/work''" init]
  note t3 = naming_outcomes_exclusive [OF h1 h2, of "''/x/bare.git''" init]
  from t1 [THEN conjunct1] e1 have a: "last_dir ''/x/work/.git'' = ''.git''"
    by simp
  from t2 [THEN conjunct2, THEN conjunct1] e2 have b: "\<not> dir_name_with_git ''/x/work''"
    by simp
  from t3 [THEN conjunct2, THEN conjunct2, THEN conjunct1] g
  have c: "Non_bare ''/x/bare.git'' \<notin> set (emitted init (gitree ''/x/bare.git'' (Some ?es) init)) \<and>
           Name_not_with_git ''/x/bare.git'' \<notin>
             set (emitted init (gitree ''/x/bare.git'' (Some ?es) init))"
    by (rule mp)
  note g1 = g [THEN conjunct1] and g2 = g [THEN conjunct2]
    and c1 = c [THEN conjunct1] and c2 = c [THEN conjunct2]
  from h1 h2 e1 a e2 b g1 g2 c1 c2 show ?thesis by (intro conjI)
qed

lemma readdir_loop_skip:
  "d_type e \<noteq> DT_DIR \<Longrightarrow> d_type e \<noteq> DT_REG \<Longrightarrow> d_type e \<noteq> DT_UNKNOWN \<Longrightarrow>
     readdir_loop dirname (es1 @ e # es2) ls = readdir_loop dirname (es1 @ es2) ls"
  by (induction es1 arbitrary: ls) (simp_all add: Let_def)

lemma children_append: "children (xs @ ys) = children xs @ children ys"
  by (simp add: children_def)

lemma dir_children_append: "dir_children (xs @ ys) = dir_children xs @ dir_children ys"
  by (simp add: dir_children_def children_append)

lemma file_children_append: "file_children (xs @ ys) = file_children xs @ file_children ys"
  by (simp add: file_children_def children_append)

lemma foreign_append: "foreign (xs @ ys) = foreign xs @ foreign ys"
  by (simp add: foreign_def children_append)

lemma is_git_tree_skip:
  "d_type e \<noteq> DT_DIR \<Longrightarrow> d_type e \<noteq> DT_REG \<Longrightarrow>
     is_git_tree (es1 @ e # es2) = is_git_tree (es1 @ es2)"
  by (simp add: is_git_tree_def dir_children_append file_children_append)

lemma gitree_skip:
  assumes "d_type e \<noteq> DT_DIR" and "d_type e \<noteq> DT_REG" and "d_type e \<noteq> DT_UNKNOWN"
    and "\<not> is_git_tree (es1 @ es2)"
  shows "gitree dirname (Some (es1 @ e # es2)) s = gitree dirname (Some (es1 @ es2)) s"
proof (cases "readdir_loop dirname (es1 @ es2) listing0")
  case (Inl st)
  with readdir_loop_skip [OF assms(1-3), of dirname es1 es2 listing0] show ?thesis
    by (simp add: gitree_Some_stop)
next
  case (Inr ls)
  from readdir_loop_Inr [OF Inr] assms(4)
  have n: "\<not> (has_dir_objects ls \<and> has_dir_refs ls \<and> has_file_HEAD ls)"
    by (simp add: is_git_tree_def listing0_def)
  from Inr readdir_loop_skip [OF assms(1-3), of dirname es1 es2 listing0]
  have Inr': "readdir_loop dirname (es1 @ e # es2) listing0 = Inr ls" by simp
  show ?thesis
    by (simp add: gitree_Some_walk [OF Inr n] gitree_Some_walk [OF Inr' n])
qed

lemma foreign_mem:
  "x \<in> set es \<Longrightarrow> d_name x \<notin> set git_files \<Longrightarrow> d_name x \<noteq> ''.'' \<Longrightarrow> d_name x \<noteq> ''..'' \<Longrightarrow>
     x \<in> set (foreign es)"
  by (simp add: foreign_def children_def)

section \<open>Entries of other types\<close>

text \<open>
  Claim C10. Take an entry whose type is none of \<^verbatim>\<open>DT_DIR\<close>, \<^verbatim>\<open>DT_REG\<close> and
  \<^verbatim>\<open>DT_UNKNOWN\<close> (a symbolic link, a FIFO, a socket, a device). It has no part in
  the test for a git tree. In a directory that is no git tree the walker passes over it:
  the visit of the listing with the entry, at any position, is the visit of the listing
  without it, so the entry is not entered, not reported as a file outside a git tree,
  and does not stop the run. In a directory that is a git tree the layout check does
  look at its name: when the name is not in \<open>git_files\<close> the layout warning for it is
  printed, whatever the type.
\<close>

theorem other_types_skipped:
  assumes "d_type e \<noteq> DT_DIR" and "d_type e \<noteq> DT_REG" and "d_type e \<noteq> DT_UNKNOWN"
  shows "is_git_tree (es1 @ e # es2) = is_git_tree (es1 @ es2) \<and>
         (\<not> is_git_tree (es1 @ es2) \<longrightarrow>
            gitree dirname (Some (es1 @ e # es2)) s = gitree dirname (Some (es1 @ es2)) s) \<and>
         (scan_ok (es1 @ e # es2) \<and> is_git_tree (es1 @ e # es2) \<and>
          d_name e \<notin> set git_files \<and> d_name e \<noteq> ''.'' \<and> d_name e \<noteq> ''..'' \<longrightarrow>
            Breaks_layout dirname (d_name e) \<in>
              set (emitted s (gitree dirname (Some (es1 @ e # es2)) s)))"
proof (intro conjI impI)
  show "is_git_tree (es1 @ e # es2) = is_git_tree (es1 @ es2)"
    by (rule is_git_tree_skip [OF assms(1,2)])
next
  assume "\<not> is_git_tree (es1 @ es2)"
  with assms show "gitree dirname (Some (es1 @ e # es2)) s = gitree dirname (Some (es1 @ es2)) s"
    by (rule gitree_skip)
next
  assume a: "scan_ok (es1 @ e # es2) \<and> is_git_tree (es1 @ e # es2) \<and>
          d_name e \<notin> set git_files \<and> d_name e \<noteq> ''.'' \<and> d_name e \<noteq> ''..''"
  then have "e \<in> set (foreign (es1 @ e # es2))"
    by (intro foreign_mem) simp_all
  with a show "Breaks_layout dirname (d_name e) \<in>
              set (emitted s (gitree dirname (Some (es1 @ e # es2)) s))"
    by (simp add: gitree_tree_closed)
qed

theorem other_types_skipped_witness:
  "is_git_tree [Dirent ''sub'' DT_DIR (Some []), Dirent ''ln'' DT_LNK (Some [Dirent ''f'' DT_REG None]),
                Dirent ''f'' DT_REG None] = False \<and>
   gitree ''/x'' (Some [Dirent ''sub'' DT_DIR (Some []),
                        Dirent ''ln'' DT_LNK (Some [Dirent ''f'' DT_REG None]),
                        Dirent ''f'' DT_REG None]) init =
     Inr \<lparr>out = [Checking ''/x'', Not_in_git ''/x'' ''f'', Checking ''/x/sub''],
          sum_break_layout_rule = 0, sum_dir_name_not_with_git = 0,
          sum_non_bare_git = 0, sum_not_in_git = 1\<rparr> \<and>
   scan_ok [Dirent ''objects'' DT_DIR None, Dirent ''refs'' DT_DIR None, Dirent ''ln'' DT_LNK None,
            Dirent ''HEAD'' DT_REG None] \<and>
   is_git_tree [Dirent ''objects'' DT_DIR None, Dirent ''refs'' DT_DIR None,
            Dirent ''ln'' DT_LNK None, Dirent ''HEAD'' DT_REG None] \<and>
   Breaks_layout ''/x.git'' ''ln'' \<in> set (emitted init (gitree ''/x.git''
     (Some [Dirent ''objects'' DT_DIR None, Dirent ''refs'' DT_DIR None,
            Dirent ''ln'' DT_LNK None, Dirent ''HEAD'' DT_REG None]) init))"
proof -
  let ?ln = "Dirent ''ln'' DT_LNK (Some [Dirent ''f'' DT_REG None])"
  let ?es1 = "[Dirent ''sub'' DT_DIR (Some [])]"
  let ?es2 = "[Dirent ''f'' DT_REG None]"
  have t: "d_type ?ln \<noteq> DT_DIR" "d_type ?ln \<noteq> DT_REG" "d_type ?ln \<noteq> DT_UNKNOWN"
    by simp_all
  have n: "\<not> is_git_tree (?es1 @ ?es2)" by (simp add: is_git_tree_def)
  note w1 = other_types_skipped [OF t, of ?es1 ?es2 "''/x''" init]
  from w1 [THEN conjunct1] n have a: "is_git_tree (?es1 @ ?ln # ?es2) = False" by simp
  from w1 [THEN conjunct2, THEN conjunct1] n
  have "gitree ''/x'' (Some (?es1 @ ?ln # ?es2)) init = gitree ''/x'' (Some (?es1 @ ?es2)) init"
    by (rule mp)
  also have "\<dots> = Inr \<lparr>out = [Checking ''/x'', Not_in_git ''/x'' ''f'', Checking ''/x/sub''],
          sum_break_layout_rule = 0, sum_dir_name_not_with_git = 0,
          sum_non_bare_git = 0, sum_not_in_git = 1\<rparr>"
    by (simp add: gitree.simps Let_def listing0_def init_def SUBDIRNO_def SUBFILENO_def
          in_exception_list_def exception_list_def)
  finally have b: "gitree ''/x'' (Some (?es1 @ ?ln # ?es2)) init =
      Inr \<lparr>out = [Checking ''/x'', Not_in_git ''/x'' ''f'', Checking ''/x/sub''],
          sum_break_layout_rule = 0, sum_dir_name_not_with_git = 0,
          sum_non_bare_git = 0, sum_not_in_git = 1\<rparr>" .
  let ?l = "Dirent ''ln'' DT_LNK None"
  let ?r1 = "[Dirent ''objects'' DT_DIR None, Dirent ''refs'' DT_DIR None]"
  let ?r2 = "[Dirent ''HEAD'' DT_REG None]"
  have t': "d_type ?l \<noteq> DT_DIR" "d_type ?l \<noteq> DT_REG" "d_type ?l \<noteq> DT_UNKNOWN"
    by simp_all
  have h1: "scan_ok (?r1 @ ?l # ?r2)" by (simp add: scan_ok_def SUBDIRNO_def SUBFILENO_def)
  have h2: "is_git_tree (?r1 @ ?l # ?r2)" by (simp add: is_git_tree_def)
  have h3: "d_name ?l \<notin> set git_files \<and> d_name ?l \<noteq> ''.'' \<and> d_name ?l \<noteq> ''..''"
    by (simp add: git_files_def)
  note w2 = other_types_skipped [OF t', of ?r1 ?r2 "''/x.git''" init]
  from w2 [THEN conjunct2, THEN conjunct2] h1 h2 h3
  have c: "Breaks_layout ''/x.git'' (d_name ?l) \<in>
              set (emitted init (gitree ''/x.git'' (Some (?r1 @ ?l # ?r2)) init))"
    by blast
  from a b h1 h2 c show ?thesis by simp
qed

section \<open>Files outside a git tree\<close>

lemma is_stray_simps [simp]:
  "is_stray (Not_in_git d f)" "\<not> is_stray (Checking d)" "\<not> is_stray (Non_bare d)"
  "\<not> is_stray (Name_not_with_git d)" "\<not> is_stray (Breaks_layout d f)"
  "\<not> is_stray (Check_result a b c e)"
  by (simp_all add: is_stray_def)

lemma counted_plus: "counted a \<Longrightarrow> counted b \<Longrightarrow> counted (plus_state a b)"
  by (simp add: counted_def plus_state_def)

lemma counted_naming: "counted (naming dirname)"
  by (simp add: counted_def naming_def)

lemma counted_layout: "counted (layout dirname es)"
  by (simp add: counted_def layout_def filter_map comp_def)

lemma counted_unit: "\<not> is_stray l \<Longrightarrow> counted (unit_state [l])"
  by (simp add: counted_def unit_state_def)

lemma counted_subfile_loop: "counted s \<Longrightarrow> counted (subfile_loop dirname fs s)"
  by (simp add: subfile_loop_eq counted_def filter_map comp_def)

lemma counted_gitree:
  "counted s \<Longrightarrow> counted (final (gitree dirname t s))"
  "counted s \<Longrightarrow> counted (final (subdir_loop ds s))"
proof (induction dirname t s and ds s rule: gitree_subdir_loop.induct)
  case (1 dirname s)
  then show ?case by simp
next
  case (2 dirname es s)
  let ?s1 = "s\<lparr>out := out s @ [Checking dirname]\<rparr>"
  from "2.prems" have c1: "counted ?s1"
    by (simp add: checking_unit counted_plus counted_unit)
  show ?case
  proof (cases "readdir_loop dirname es listing0")
    case (Inl st)
    with c1 show ?thesis by (simp add: gitree_Some_stop)
  next
    case (Inr ls)
    show ?thesis
    proof (cases "has_dir_objects ls \<and> has_dir_refs ls \<and> has_file_HEAD ls")
      case True
      from c1 show ?thesis
        by (simp add: gitree_Some_tree [OF Inr True] check_gitree_Some counted_plus
              counted_naming counted_layout)
    next
      case False
      from c1 have "counted (subfile_loop dirname (subfile ls) ?s1)"
        by (rule counted_subfile_loop)
      from "2.IH" [OF refl Inr False this] show ?thesis
        by (simp add: gitree_Some_walk [OF Inr False])
    qed
  qed
next
  case (3 s)
  then show ?case by simp
next
  case (4 p t ds s)
  show ?case
  proof (cases "gitree p t s")
    case (Inl x)
    with "4.IH"(1) [OF "4.prems"] show ?thesis by (cases x) simp
  next
    case (Inr s')
    with "4.IH"(1) [OF "4.prems"] have "counted s'" by simp
    from "4.IH"(2) [OF Inr this] Inr show ?thesis by simp
  qed
qed

lemma stray_count:
  "sum_not_in_git (final (gitree p t s)) =
     sum_not_in_git s + int (length (filter is_stray (emitted s (gitree p t s))))"
proof -
  have "counted init" by (simp add: counted_def init_def)
  from counted_gitree(1) [OF this, of p t]
  have "sum_not_in_git (final (gitree p t init)) =
          int (length (filter is_stray (out (final (gitree p t init)))))"
    by (simp add: counted_def)
  moreover have "gitree p t s = after s (gitree p t init)"
    using gitree_plus(1) [of p t s init] by simp
  then have "sum_not_in_git (final (gitree p t s)) =
               sum_not_in_git s + sum_not_in_git (final (gitree p t init))"
    by (simp add: final_after plus_state_def)
  ultimately show ?thesis
    by (simp add: emitted_gitree)
qed

text \<open>Stray lines name the directory visited or one beneath it.\<close>

lemma stray_under:
  "Not_in_git d f \<in> set (out (final (gitree p t s))) \<Longrightarrow>
     Not_in_git d f \<in> set (out s) \<or> take (length p) d = p"
  "Not_in_git d f \<in> set (out (final (subdir_loop ds s))) \<Longrightarrow>
     Not_in_git d f \<in> set (out s) \<or> (\<exists>q \<in> fst ` set ds. take (length q) d = q)"
proof (induction p t s and ds s rule: gitree_subdir_loop.induct)
  case (1 dirname s)
  then show ?case by simp
next
  case (2 dirname es s)
  let ?s1 = "s\<lparr>out := out s @ [Checking dirname]\<rparr>"
  show ?case
  proof (cases "readdir_loop dirname es listing0")
    case (Inl st)
    with "2.prems" show ?thesis by (simp add: gitree_Some_stop)
  next
    case (Inr ls)
    show ?thesis
    proof (cases "has_dir_objects ls \<and> has_dir_refs ls \<and> has_file_HEAD ls")
      case True
      from "2.prems" show ?thesis
        by (auto simp: gitree_Some_tree [OF Inr True] check_gitree_Some naming_def)
    next
      case False
      from "2.prems" have "Not_in_git d f \<in> set (out (final (subdir_loop (subdir ls)
            (subfile_loop dirname (subfile ls) ?s1))))"
        by (simp add: gitree_Some_walk [OF Inr False])
      from "2.IH" [OF refl Inr False this]
      have "Not_in_git d f \<in> set (out (subfile_loop dirname (subfile ls) ?s1)) \<or>
            (\<exists>q \<in> fst ` set (subdir ls). take (length q) d = q)" .
      then show ?thesis
      proof
        assume "Not_in_git d f \<in> set (out (subfile_loop dirname (subfile ls) ?s1))"
        then show ?thesis by (auto simp: subfile_loop_eq split: if_splits)
      next
        assume "\<exists>q \<in> fst ` set (subdir ls). take (length q) d = q"
        then obtain e where "take (length (dirname @ ''/'' @ d_name e)) d = dirname @ ''/'' @ d_name e"
          using readdir_loop_Inr [OF Inr] by (auto simp: listing0_def slot_def)
        then have "take (length dirname) (take (length (dirname @ ''/'' @ d_name e)) d) = dirname"
          by simp
        then have "take (length dirname) d = dirname" by (simp add: min_def)
        then show ?thesis ..
      qed
    qed
  qed
next
  case (3 s)
  then show ?case by simp
next
  case (4 p t ds s)
  show ?case
  proof (cases "gitree p t s")
    case (Inl x)
    with "4.prems" have "Not_in_git d f \<in> set (out (final (gitree p t s)))"
      by (cases x) simp
    from "4.IH"(1) [OF this] show ?thesis by auto
  next
    case (Inr s')
    with "4.prems" have "Not_in_git d f \<in> set (out (final (subdir_loop ds s')))" by simp
    from "4.IH"(2) [OF Inr this] have "Not_in_git d f \<in> set (out s') \<or>
        (\<exists>q \<in> fst ` set ds. take (length q) d = q)" .
    then show ?thesis
    proof
      assume "Not_in_git d f \<in> set (out s')"
      with Inr have "Not_in_git d f \<in> set (out (final (gitree p t s)))" by simp
      from "4.IH"(1) [OF this] show ?thesis by auto
    next
      assume "\<exists>q \<in> fst ` set ds. take (length q) d = q"
      then show ?thesis by auto
    qed
  qed
qed

lemma no_stray_beneath:
  "Not_in_git dirname f \<notin>
     set (emitted s (subdir_loop (map (slot dirname) (dir_children es)) s))"
proof
  assume "Not_in_git dirname f \<in>
     set (emitted s (subdir_loop (map (slot dirname) (dir_children es)) s))"
  then have "Not_in_git dirname f \<in>
     set (out (final (subdir_loop (map (slot dirname) (dir_children es)) init)))"
    by (simp add: emitted_subdir_loop)
  from stray_under(2) [OF this]
  obtain e where "take (length (dirname @ ''/'' @ d_name e)) dirname = dirname @ ''/'' @ d_name e"
    by (auto simp: init_def slot_def)
  then have "length (take (length (dirname @ ''/'' @ d_name e)) dirname) =
               length (dirname @ ''/'' @ d_name e)"
    by (rule arg_cong)
  then show False by simp
qed


lemma out_subdir_loop:
  "out (final (subdir_loop ds s)) = out s @ out (final (subdir_loop ds init))"
  using gitree_plus(2) [of ds s init] by (simp add: final_after)

lemma emitted_walk:
  assumes "scan_ok es" and "\<not> is_git_tree es"
  shows "emitted s (gitree dirname (Some es) s) =
           Checking dirname #
           (if in_exception_list dirname then []
            else map (\<lambda>e. Not_in_git dirname (d_name e)) (file_children es)) @
           out (final (subdir_loop (map (slot dirname) (dir_children es)) init))"
proof -
  have "out (final (gitree dirname (Some es) s)) =
          out (subfile_loop dirname (map d_name (file_children es))
                 (s\<lparr>out := out s @ [Checking dirname]\<rparr>)) @
          out (final (subdir_loop (map (slot dirname) (dir_children es)) init))"
    unfolding gitree_walk [OF assms] by (rule out_subdir_loop)
  also have "out (subfile_loop dirname (map d_name (file_children es))
                 (s\<lparr>out := out s @ [Checking dirname]\<rparr>)) =
             out s @ Checking dirname #
               (if in_exception_list dirname then []
                else map (\<lambda>e. Not_in_git dirname (d_name e)) (file_children es))"
    by (simp add: subfile_loop_eq comp_def)
  finally show ?thesis by (simp add: emitted_def)
qed

text \<open>
  Claim C5. Take a directory that the walker reads to the end. When it is no git tree,
  the visit prints the announcing line and then, unless the path of the directory
  matches the exception list, one line for each regular file of the listing, in order;
  what follows comes from the directories beneath and holds no line for a file of this
  directory, so each regular file is reported once, or not at all when the path is
  exempt. When the directory is a git tree, the visit prints no such line, and nothing
  beneath the directory is read (the visit is the same for every listing with these
  names and types), so no file beneath it is reported. In both cases the counter grows
  by the number of such lines printed: one step for each line.
\<close>

theorem stray_files:
  assumes "scan_ok es"
  shows "(\<not> is_git_tree es \<longrightarrow>
           (\<exists>rest. emitted s (gitree dirname (Some es) s) =
              Checking dirname #
              (if in_exception_list dirname then []
               else map (\<lambda>e. Not_in_git dirname (d_name e)) (file_children es)) @ rest \<and>
              (\<forall>f. Not_in_git dirname f \<notin> set rest))) \<and>
         (is_git_tree es \<longrightarrow>
            filter is_stray (emitted s (gitree dirname (Some es) s)) = [] \<and>
            (\<forall>es'. shape es' = shape es \<longrightarrow>
               gitree dirname (Some es') s = gitree dirname (Some es) s)) \<and>
         sum_not_in_git (final (gitree dirname (Some es) s)) =
           sum_not_in_git s +
           int (length (filter is_stray (emitted s (gitree dirname (Some es) s))))"
proof (intro conjI impI)
  assume n: "\<not> is_git_tree es"
  have "\<forall>f. Not_in_git dirname f \<notin>
          set (out (final (subdir_loop (map (slot dirname) (dir_children es)) init)))"
    using no_stray_beneath [of dirname _ init es] by (simp add: emitted_subdir_loop)
  with emitted_walk [OF assms n, of s dirname]
  show "\<exists>rest. emitted s (gitree dirname (Some es) s) =
              Checking dirname #
              (if in_exception_list dirname then []
               else map (\<lambda>e. Not_in_git dirname (d_name e)) (file_children es)) @ rest \<and>
              (\<forall>f. Not_in_git dirname f \<notin> set rest)"
    by blast
next
  assume g: "is_git_tree es"
  show "filter is_stray (emitted s (gitree dirname (Some es) s)) = []"
    by (simp add: gitree_tree_closed [OF assms g] naming_def filter_map comp_def)
  show "\<forall>es'. shape es' = shape es \<longrightarrow>
          gitree dirname (Some es') s = gitree dirname (Some es) s"
    by (intro allI impI) (rule gitree_tree_shape [OF assms g])
next
  show "sum_not_in_git (final (gitree dirname (Some es) s)) =
           sum_not_in_git s +
           int (length (filter is_stray (emitted s (gitree dirname (Some es) s))))"
    by (rule stray_count)
qed

theorem stray_files_witness:
  "scan_ok [Dirent ''README.md'' DT_REG None,
            Dirent ''.git'' DT_DIR (Some [Dirent ''objects'' DT_DIR (Some [Dirent ''x'' DT_REG None]),
                                         Dirent ''refs'' DT_DIR (Some []),
                                         Dirent ''HEAD'' DT_REG None]),
            Dirent ''doc'' DT_DIR (Some [Dirent ''a.txt'' DT_REG None])] \<and>
   emitted init (gitree ''/r/proj''
     (Some [Dirent ''README.md'' DT_REG None,
            Dirent ''.git'' DT_DIR (Some [Dirent ''objects'' DT_DIR (Some [Dirent ''x'' DT_REG None]),
                                         Dirent ''refs'' DT_DIR (Some []),
                                         Dirent ''HEAD'' DT_REG None]),
            Dirent ''doc'' DT_DIR (Some [Dirent ''a.txt'' DT_REG None])]) init) =
     [Checking ''/r/proj'', Not_in_git ''/r/proj'' ''README.md'',
      Checking ''/r/proj/.git'', Non_bare ''/r/proj/.git'',
      Checking ''/r/proj/doc'', Not_in_git ''/r/proj/doc'' ''a.txt''] \<and>
   sum_not_in_git (final (gitree ''/r/proj''
     (Some [Dirent ''README.md'' DT_REG None,
            Dirent ''.git'' DT_DIR (Some [Dirent ''objects'' DT_DIR (Some [Dirent ''x'' DT_REG None]),
                                         Dirent ''refs'' DT_DIR (Some []),
                                         Dirent ''HEAD'' DT_REG None]),
            Dirent ''doc'' DT_DIR (Some [Dirent ''a.txt'' DT_REG None])]) init)) = 2 \<and>
   scan_ok [Dirent ''objects'' DT_DIR (Some [Dirent ''x'' DT_REG None]),
            Dirent ''refs'' DT_DIR (Some []), Dirent ''HEAD'' DT_REG None] \<and>
   is_git_tree [Dirent ''objects'' DT_DIR (Some [Dirent ''x'' DT_REG None]),
            Dirent ''refs'' DT_DIR (Some []), Dirent ''HEAD'' DT_REG None] \<and>
   filter is_stray (emitted init (gitree ''/r/proj/.git''
     (Some [Dirent ''objects'' DT_DIR (Some [Dirent ''x'' DT_REG None]),
            Dirent ''refs'' DT_DIR (Some []), Dirent ''HEAD'' DT_REG None]) init)) = []"
proof -
  let ?root = "[Dirent ''objects'' DT_DIR (Some [Dirent ''x'' DT_REG None]),
            Dirent ''refs'' DT_DIR (Some []), Dirent ''HEAD'' DT_REG None]"
  let ?es = "[Dirent ''README.md'' DT_REG None, Dirent ''.git'' DT_DIR (Some ?root),
            Dirent ''doc'' DT_DIR (Some [Dirent ''a.txt'' DT_REG None])]"
  have h1: "scan_ok ?es" by (simp add: scan_ok_def SUBDIRNO_def SUBFILENO_def)
  have h2: "scan_ok ?root" by (simp add: scan_ok_def SUBDIRNO_def SUBFILENO_def)
  have h3: "is_git_tree ?root" by (simp add: is_git_tree_def)
  have e: "emitted init (gitree ''/r/proj'' (Some ?es) init) =
     [Checking ''/r/proj'', Not_in_git ''/r/proj'' ''README.md'',
      Checking ''/r/proj/.git'', Non_bare ''/r/proj/.git'',
      Checking ''/r/proj/doc'', Not_in_git ''/r/proj/doc'' ''a.txt'']"
    by (simp add: gitree.simps Let_def listing0_def init_def SUBDIRNO_def SUBFILENO_def
          in_exception_list_def exception_list_def check_gitree_def dir_name_with_git_def
          last_dir_def git_files_def emitted_def)
  from stray_files [OF h1, where dirname = "''/r/proj''" and s = init, THEN conjunct2, THEN conjunct2]
  have c: "sum_not_in_git (final (gitree ''/r/proj'' (Some ?es) init)) = 2"
    unfolding e by (simp add: init_def)
  from stray_files [OF h2, where dirname = "''/r/proj/.git''" and s = init, THEN conjunct2, THEN conjunct1] h3
  have r: "filter is_stray (emitted init (gitree ''/r/proj/.git'' (Some ?root) init)) = []"
    by blast
  from h1 e c h2 h3 r show ?thesis by (intro conjI)
qed

section \<open>Capacity of the arrays\<close>

lemma readdir_loop_bound:
  "readdir_loop dirname es ls = Inr ls' \<Longrightarrow>
   length (subdir ls) < SUBDIRNO \<Longrightarrow> length (subfile ls) < SUBFILENO \<Longrightarrow>
     length (subdir ls') < SUBDIRNO \<and> length (subfile ls') < SUBFILENO"
proof (induction es arbitrary: ls)
  case Nil
  then show ?case by simp
next
  case (Cons e es)
  show ?case
  proof (cases "d_name e = ''.'' \<or> d_name e = ''..''")
    case True
    with Cons.prems Cons.IH [of ls] show ?thesis by auto
  next
    case False
    note nd = this
    show ?thesis
    proof (cases "d_type e = DT_DIR")
      case True
      let ?ls = "ls\<lparr>has_dir_objects := (has_dir_objects ls \<or> d_name e = ''objects''),
                        has_dir_refs := (has_dir_refs ls \<or> d_name e = ''refs''),
                        subdir := subdir ls @ [(dirname @ ''/'' @ d_name e, d_sub e)]\<rparr>"
      from Cons.prems nd True
      have "readdir_loop dirname es ?ls = Inr ls'" "length (subdir ?ls) < SUBDIRNO"
        by (simp_all add: Let_def split: if_splits)
      with Cons.prems(3) Cons.IH [of ?ls] show ?thesis by simp
    next
      case False
      note ndir = this
      show ?thesis
      proof (cases "d_type e = DT_REG")
        case True
        let ?ls = "ls\<lparr>has_file_HEAD := (has_file_HEAD ls \<or> d_name e = ''HEAD''),
                        subfile := subfile ls @ [d_name e]\<rparr>"
        from Cons.prems nd True
        have "readdir_loop dirname es ?ls = Inr ls'" "length (subfile ?ls) < SUBFILENO"
          by (simp_all add: Let_def split: if_splits)
        with Cons.prems(2) Cons.IH [of ?ls] show ?thesis by simp
      next
        case False
        with Cons.prems nd ndir have "readdir_loop dirname es ls = Inr ls'"
          by (auto split: if_splits)
        with Cons.prems Cons.IH [of ls] show ?thesis by simp
      qed
    qed
  qed
qed

lemma readdir_loop_Inl:
  "readdir_loop dirname es ls = Inl st \<Longrightarrow>
   length (subdir ls) < SUBDIRNO \<Longrightarrow> length (subfile ls) < SUBFILENO \<Longrightarrow>
     st = Exit Reach_max_dir_num \<and>
       SUBDIRNO \<le> length (subdir ls) + length (dir_children es) \<or>
     st = Exit Reach_max_file_num \<and>
       SUBFILENO \<le> length (subfile ls) + length (file_children es) \<or>
     st = Exit Unknown_file_type \<and> DT_UNKNOWN \<in> d_type ` set (children es)"
proof (induction es arbitrary: ls)
  case Nil
  then show ?case by simp
next
  case (Cons e es)
  show ?case
  proof (cases "d_name e = ''.'' \<or> d_name e = ''..''")
    case True
    with Cons.prems Cons.IH [of ls] show ?thesis by auto
  next
    case False
    note nd = this
    show ?thesis
    proof (cases "d_type e = DT_DIR")
      case True
      let ?ls = "ls\<lparr>has_dir_objects := (has_dir_objects ls \<or> d_name e = ''objects''),
                        has_dir_refs := (has_dir_refs ls \<or> d_name e = ''refs''),
                        subdir := subdir ls @ [(dirname @ ''/'' @ d_name e, d_sub e)]\<rparr>"
      show ?thesis
      proof (cases "SUBDIRNO \<le> length (subdir ?ls)")
        case True
        with Cons.prems nd \<open>d_type e = DT_DIR\<close> show ?thesis by (simp add: Let_def)
      next
        case False
        with Cons.prems nd \<open>d_type e = DT_DIR\<close>
        have "readdir_loop dirname es ?ls = Inl st" "length (subdir ?ls) < SUBDIRNO"
          by (simp_all add: Let_def)
        with Cons.prems(3) Cons.IH [of ?ls] nd \<open>d_type e = DT_DIR\<close> show ?thesis by auto
      qed
    next
      case False
      note ndir = this
      show ?thesis
      proof (cases "d_type e = DT_REG")
        case True
        let ?ls = "ls\<lparr>has_file_HEAD := (has_file_HEAD ls \<or> d_name e = ''HEAD''),
                        subfile := subfile ls @ [d_name e]\<rparr>"
        show ?thesis
        proof (cases "SUBFILENO \<le> length (subfile ?ls)")
          case True
          with Cons.prems nd \<open>d_type e = DT_REG\<close> show ?thesis by (simp add: Let_def)
        next
          case False
          with Cons.prems nd \<open>d_type e = DT_REG\<close>
          have "readdir_loop dirname es ?ls = Inl st" "length (subfile ?ls) < SUBFILENO"
            by (simp_all add: Let_def)
          with Cons.prems(2) Cons.IH [of ?ls] nd \<open>d_type e = DT_REG\<close> show ?thesis by auto
        qed
      next
        case False
        note nreg = this
        show ?thesis
        proof (cases "d_type e = DT_UNKNOWN")
          case True
          with Cons.prems nd ndir nreg show ?thesis by auto
        next
          case False
          with Cons.prems nd ndir nreg have "readdir_loop dirname es ls = Inl st" by auto
          with Cons.prems Cons.IH [of ls] nd ndir nreg show ?thesis by auto
        qed
      qed
    qed
  qed
qed

lemma listing0_room: "length (subdir listing0) < SUBDIRNO" "length (subfile listing0) < SUBFILENO"
  by (simp_all add: listing0_def SUBDIRNO_def SUBFILENO_def)

lemma gitree_defined:
  "gitree dirname t s \<noteq> Inl (Undefined, s')"
  "subdir_loop ds s \<noteq> Inl (Undefined, s')"
proof (induction dirname t s and ds s rule: gitree_subdir_loop.induct)
  case (1 dirname s)
  show ?case by simp
next
  case (2 dirname es s)
  show ?case
  proof (cases "readdir_loop dirname es listing0")
    case (Inl st)
    from readdir_loop_Inl [OF Inl listing0_room] have "st \<noteq> Undefined" by auto
    with Inl show ?thesis by (simp add: gitree_Some_stop)
  next
    case (Inr ls)
    show ?thesis
    proof (cases "has_dir_objects ls \<and> has_dir_refs ls \<and> has_file_HEAD ls")
      case True
      show ?thesis by (simp add: gitree_Some_tree [OF Inr True] check_gitree_Some)
    next
      case False
      from "2.IH" [OF refl Inr False] show ?thesis
        by (simp add: gitree_Some_walk [OF Inr False])
    qed
  qed
next
  case (3 s)
  show ?case by simp
next
  case (4 p t ds s)
  show ?case
  proof (cases "gitree p t s")
    case (Inl x)
    with "4.IH"(1) show ?thesis by simp
  next
    case (Inr s'')
    with "4.IH"(2) [OF Inr] show ?thesis by simp
  qed
qed


text \<open>
  Claim C8. The arrays \<^verbatim>\<open>subdir\<close> and \<^verbatim>\<open>subfile\<close> have 4096 slots each. The
  \<^verbatim>\<open>readdir\<close> loop of a visit never stores outside them. When the loop completes it
  has stored every directory and every regular file of the listing (nothing is dropped),
  and fewer than 4096 of each. When the listing has 4096 or more directories, or 4096 or
  more regular files, the loop stops the whole run through \<^verbatim>\<open>exit\<close> with a value
  other than zero; with no entry of unknown type in the listing the stop is the one for
  the array that filled up. No visit of a run ever leaves defined behaviour.
\<close>

theorem capacity:
  "readdir_loop dirname es listing0 \<noteq> Inl Undefined \<and>
   (\<forall>ls. readdir_loop dirname es listing0 = Inr ls \<longrightarrow>
      length (subdir ls) = length (dir_children es) \<and> length (subdir ls) < SUBDIRNO \<and>
      length (subfile ls) = length (file_children es) \<and> length (subfile ls) < SUBFILENO) \<and>
   (SUBDIRNO \<le> length (dir_children es) \<or> SUBFILENO \<le> length (file_children es) \<longrightarrow>
      (\<exists>f. readdir_loop dirname es listing0 = Inl (Exit f) \<and>
           gitree dirname (Some es) s =
             Inl (Exit f, s\<lparr>out := out s @ [Checking dirname]\<rparr>) \<and>
           exit_arg f \<noteq> 0)) \<and>
   (DT_UNKNOWN \<notin> d_type ` set (children es) \<and>
    SUBDIRNO \<le> length (dir_children es) \<and> length (file_children es) < SUBFILENO \<longrightarrow>
      readdir_loop dirname es listing0 = Inl (Exit Reach_max_dir_num)) \<and>
   (DT_UNKNOWN \<notin> d_type ` set (children es) \<and>
    SUBFILENO \<le> length (file_children es) \<and> length (dir_children es) < SUBDIRNO \<longrightarrow>
      readdir_loop dirname es listing0 = Inl (Exit Reach_max_file_num)) \<and>
   (\<forall>t s'. gitree dirname t s \<noteq> Inl (Undefined, s')) \<and>
   SUBDIRNO = 4096 \<and> SUBFILENO = 4096"
proof -
  have ok: "length (subdir ls) = length (dir_children es) \<and> length (subdir ls) < SUBDIRNO \<and>
      length (subfile ls) = length (file_children es) \<and> length (subfile ls) < SUBFILENO"
    if "readdir_loop dirname es listing0 = Inr ls" for ls
    using readdir_loop_Inr [OF that] readdir_loop_bound [OF that listing0_room]
    by (simp add: listing0_def)
  have stop: "\<exists>st. readdir_loop dirname es listing0 = Inl st"
    if "SUBDIRNO \<le> length (dir_children es) \<or> SUBFILENO \<le> length (file_children es)"
  proof (cases "readdir_loop dirname es listing0")
    case (Inl st)
    then show ?thesis by simp
  next
    case (Inr ls)
    from ok [OF Inr] that show ?thesis by auto
  qed
  have cases: "st = Exit Reach_max_dir_num \<and> SUBDIRNO \<le> length (dir_children es) \<or>
     st = Exit Reach_max_file_num \<and> SUBFILENO \<le> length (file_children es) \<or>
     st = Exit Unknown_file_type \<and> DT_UNKNOWN \<in> d_type ` set (children es)"
    if "readdir_loop dirname es listing0 = Inl st" for st
    using readdir_loop_Inl [OF that listing0_room] by (simp add: listing0_def)
  have 1: "readdir_loop dirname es listing0 \<noteq> Inl Undefined"
    using cases [of Undefined] by auto
  have 3: "\<exists>f. readdir_loop dirname es listing0 = Inl (Exit f) \<and>
           gitree dirname (Some es) s =
             Inl (Exit f, s\<lparr>out := out s @ [Checking dirname]\<rparr>) \<and>
           exit_arg f \<noteq> 0"
    if "SUBDIRNO \<le> length (dir_children es) \<or> SUBFILENO \<le> length (file_children es)"
  proof -
    from stop [OF that] obtain st where st: "readdir_loop dirname es listing0 = Inl st" ..
    from cases [OF st] obtain f where f: "st = Exit f" "exit_arg f \<noteq> 0" by auto
    with st gitree_Some_stop [OF st, of s] show ?thesis by simp
  qed
  have 4: "readdir_loop dirname es listing0 = Inl (Exit Reach_max_dir_num)"
    if "DT_UNKNOWN \<notin> d_type ` set (children es) \<and>
        SUBDIRNO \<le> length (dir_children es) \<and> length (file_children es) < SUBFILENO"
  proof -
    from that stop obtain st where st: "readdir_loop dirname es listing0 = Inl st" by blast
    from cases [OF st] that st show ?thesis by auto
  qed
  have 5: "readdir_loop dirname es listing0 = Inl (Exit Reach_max_file_num)"
    if "DT_UNKNOWN \<notin> d_type ` set (children es) \<and>
        SUBFILENO \<le> length (file_children es) \<and> length (dir_children es) < SUBDIRNO"
  proof -
    from that stop obtain st where st: "readdir_loop dirname es listing0 = Inl st" by blast
    from cases [OF st] that st show ?thesis by auto
  qed
  have 6: "\<forall>t s'. gitree dirname t s \<noteq> Inl (Undefined, s')"
    by (simp add: gitree_defined)
  have 7: "SUBDIRNO = 4096" "SUBFILENO = 4096"
    by (simp_all add: SUBDIRNO_def SUBFILENO_def)
  have 2: "\<forall>ls. readdir_loop dirname es listing0 = Inr ls \<longrightarrow>
      length (subdir ls) = length (dir_children es) \<and> length (subdir ls) < SUBDIRNO \<and>
      length (subfile ls) = length (file_children es) \<and> length (subfile ls) < SUBFILENO"
    by (intro allI impI) (rule ok)
  from 3 have i3: "SUBDIRNO \<le> length (dir_children es) \<or>
      SUBFILENO \<le> length (file_children es) \<longrightarrow>
      (\<exists>f. readdir_loop dirname es listing0 = Inl (Exit f) \<and>
           gitree dirname (Some es) s =
             Inl (Exit f, s\<lparr>out := out s @ [Checking dirname]\<rparr>) \<and>
           exit_arg f \<noteq> 0)"
    by (rule impI)
  from 4 have i4: "DT_UNKNOWN \<notin> d_type ` set (children es) \<and>
    SUBDIRNO \<le> length (dir_children es) \<and> length (file_children es) < SUBFILENO \<longrightarrow>
      readdir_loop dirname es listing0 = Inl (Exit Reach_max_dir_num)"
    by (rule impI)
  from 5 have i5: "DT_UNKNOWN \<notin> d_type ` set (children es) \<and>
    SUBFILENO \<le> length (file_children es) \<and> length (dir_children es) < SUBDIRNO \<longrightarrow>
      readdir_loop dirname es listing0 = Inl (Exit Reach_max_file_num)"
    by (rule impI)
  from 1 2 i3 i4 i5 6 7 show ?thesis
    by (intro conjI)
qed


theorem capacity_witness:
  "SUBDIRNO \<le> length (dir_children (replicate 4096 (Dirent ''d'' DT_DIR None))) \<and>
   length (file_children (replicate 4096 (Dirent ''d'' DT_DIR None))) < SUBFILENO \<and>
   readdir_loop ''/x'' (replicate 4096 (Dirent ''d'' DT_DIR None)) listing0 =
     Inl (Exit Reach_max_dir_num) \<and>
   readdir_loop ''/x'' [Dirent ''d'' DT_DIR None, Dirent ''f'' DT_REG None] listing0 =
     Inr \<lparr>subdir = [(''/x/d'', None)], subfile = [''f''], has_dir_objects = False,
          has_dir_refs = False, has_file_HEAD = False\<rparr> \<and>
   length [(''/x/d'', None :: dirent list option)] < SUBDIRNO"
proof -
  let ?es = "replicate 4096 (Dirent ''d'' DT_DIR None)"
  have d: "dir_children ?es = ?es" "file_children ?es = []" "children ?es = ?es"
    by (simp_all add: dir_children_def file_children_def children_def)
  have h: "DT_UNKNOWN \<notin> d_type ` set (children ?es) \<and>
    SUBDIRNO \<le> length (dir_children ?es) \<and> length (file_children ?es) < SUBFILENO"
    unfolding d by (simp add: SUBDIRNO_def SUBFILENO_def)
  note t = capacity [of "''/x''" ?es init]
  from t [THEN conjunct2, THEN conjunct2, THEN conjunct2, THEN conjunct1] h
  have a: "readdir_loop ''/x'' ?es listing0 = Inl (Exit Reach_max_dir_num)"
    by (rule mp)
  have b: "readdir_loop ''/x'' [Dirent ''d'' DT_DIR None, Dirent ''f'' DT_REG None] listing0 =
     Inr \<lparr>subdir = [(''/x/d'', None)], subfile = [''f''], has_dir_objects = False,
          has_dir_refs = False, has_file_HEAD = False\<rparr>"
    by (simp add: listing0_def Let_def SUBDIRNO_def SUBFILENO_def)
  from capacity [of "''/x''" "[Dirent ''d'' DT_DIR None, Dirent ''f'' DT_REG None]" init,
      THEN conjunct2, THEN conjunct1, THEN spec, THEN mp, OF b,
      THEN conjunct2, THEN conjunct1]
  have c: "length [(''/x/d'', None :: dirent list option)] < SUBDIRNO"
    by simp
  from h a b c show ?thesis by (intro conjI) (simp_all only: simp_thms)
qed

section \<open>Exit status\<close>

lemma unknown_stops:
  assumes "length (dir_children es) < SUBDIRNO" and "length (file_children es) < SUBFILENO"
    and "DT_UNKNOWN \<in> d_type ` set (children es)"
  shows "readdir_loop dirname es listing0 = Inl (Exit Unknown_file_type)"
proof (cases "readdir_loop dirname es listing0")
  case (Inl st)
  from readdir_loop_Inl [OF Inl listing0_room] assms(1,2) Inl show ?thesis
    by (auto simp: listing0_def)
next
  case (Inr ls)
  from readdir_loop_Inr [OF Inr] assms(3) show ?thesis by simp
qed

lemma subdir_loop_Cons_slot:
  "subdir_loop (slot p e # ds) s =
     (case gitree (p @ ''/'' @ d_name e) (d_sub e) s of
        Inl x \<Rightarrow> Inl x | Inr s' \<Rightarrow> subdir_loop ds s')"
  by (simp add: slot_def)

lemma clean_returns:
  "clean t \<Longrightarrow> \<exists>s'. gitree p t s = Inr s'"
  "clean_in es \<Longrightarrow> \<exists>s'. subdir_loop (map (slot p) (dir_children es)) s = Inr s'"
proof (induction t and es arbitrary: p s and p s rule: clean_clean_in.induct)
  case 1
  then show ?case by simp
next
  case (2 es)
  from "2.prems" have ok: "scan_ok es" by simp
  show ?case
  proof (cases "is_git_tree es")
    case True
    show ?thesis by (simp add: gitree_tree [OF ok True] check_gitree_Some)
  next
    case False
    with "2.prems" have c: "clean_in es" by simp
    have "\<exists>s'. subdir_loop (map (slot p) (dir_children es)) s0 = Inr s'" for s0
      using "2.IH" c False by blast
    then show ?thesis by (simp add: gitree_walk [OF ok False])
  qed
next
  case 3
  show ?case by simp
next
  case (4 n ty sub es)
  from "4.prems" have r: "clean_in es" by simp
  have rest: "\<exists>s'. subdir_loop (map (slot p) (dir_children es)) s0 = Inr s'" for s0
    using "4.IH" r by blast
  show ?case
  proof (cases "n \<noteq> ''.'' \<and> n \<noteq> ''..'' \<and> ty = DT_DIR")
    case True
    with "4.prems" have c: "clean sub" by simp
    have "\<exists>s'. gitree (p @ ''/'' @ n) sub s = Inr s'"
      using "4.IH" True c by blast
    then obtain s' where s': "gitree (p @ ''/'' @ n) sub s = Inr s'" ..
    from rest [of s'] True s' show ?thesis
      by (simp add: subdir_loop_Cons_slot)
  next
    case False
    from rest [of s] False show ?thesis by auto
  qed
qed

lemma meets_stops:
  "meets f t \<Longrightarrow> \<exists>s'. gitree p t s = Inl (Exit f, s')"
  "meets_in f es \<Longrightarrow>
     \<exists>s'. subdir_loop (map (slot p) (dir_children es)) s = Inl (Exit f, s')"
proof (induction f t and f es arbitrary: p s and p s rule: meets_meets_in.induct)
  case (1 f)
  then show ?case by simp
next
  case (2 f es)
  from "2.prems" have d: "length (dir_children es) < SUBDIRNO"
    and fl: "length (file_children es) < SUBFILENO" by simp_all
  show ?case
  proof (cases "DT_UNKNOWN \<in> d_type ` set (children es)")
    case True
    with "2.prems" have "f = Unknown_file_type" by simp
    with gitree_Some_stop [OF unknown_stops [OF d fl True], of p s] show ?thesis by simp
  next
    case False
    with d fl have ok: "scan_ok es" by (simp add: scan_ok_def)
    from False "2.prems" have n: "\<not> is_git_tree es" and m: "meets_in f es" by simp_all
    have "\<exists>s'. subdir_loop (map (slot p) (dir_children es)) s0 = Inl (Exit f, s')" for s0
      using "2.IH" False m by blast
    then show ?thesis by (simp add: gitree_walk [OF ok n])
  qed
next
  case (3 f)
  then show ?case by simp
next
  case (4 f n ty sub es)
  show ?case
  proof (cases "n \<noteq> ''.'' \<and> n \<noteq> ''..'' \<and> ty = DT_DIR")
    case True
    with "4.prems" have "meets f sub \<or> clean sub \<and> meets_in f es" by simp
    then show ?thesis
    proof
      assume "meets f sub"
      then have "\<exists>s'. gitree (p @ ''/'' @ n) sub s = Inl (Exit f, s')"
        using "4.IH" True by blast
      with True show ?thesis
        by (auto simp: subdir_loop_Cons_slot)
    next
      assume a: "clean sub \<and> meets_in f es"
      from clean_returns(1) [of sub "p @ ''/'' @ n" s] a
      obtain s' where s': "gitree (p @ ''/'' @ n) sub s = Inr s'" by blast
      have "\<exists>s''. subdir_loop (map (slot p) (dir_children es)) s' = Inl (Exit f, s'')"
        using "4.IH" True a by blast
      with True s' show ?thesis
        by (simp add: subdir_loop_Cons_slot)
    qed
  next
    case False
    with "4.prems" have "meets_in f es" by simp
    then have "\<exists>s'. subdir_loop (map (slot p) (dir_children es)) s = Inl (Exit f, s')"
      using "4.IH" False by blast
    with False show ?thesis by auto
  qed
qed


lemma returns_clean:
  "gitree p t s = Inr s' \<Longrightarrow> clean t"
  "subdir_loop (map (slot p) (dir_children es)) s = Inr s' \<Longrightarrow> clean_in es"
proof (induction t and es arbitrary: p s s' and p s s' rule: clean_clean_in.induct)
  case 1
  then show ?case by simp
next
  case (2 es)
  show ?case
  proof (cases "readdir_loop p es listing0")
    case (Inl st)
    from gitree_Some_stop [OF Inl, of s] "2.prems" show ?thesis by simp
  next
    case (Inr ls)
    from readdir_loop_Inr [OF Inr] readdir_loop_bound [OF Inr listing0_room]
    have ok: "scan_ok es" by (simp add: scan_ok_def listing0_def)
    show ?thesis
    proof (cases "is_git_tree es")
      case True
      with ok show ?thesis by simp
    next
      case False
      from "2.prems" have "subdir_loop (map (slot p) (dir_children es))
             (subfile_loop p (map d_name (file_children es))
                (s\<lparr>out := out s @ [Checking p]\<rparr>)) = Inr s'"
        by (simp add: gitree_walk [OF ok False])
      then have "clean_in es" using "2.IH" False by blast
      with ok show ?thesis by simp
    qed
  qed
next
  case 3
  show ?case by simp
next
  case (4 n ty sub es)
  show ?case
  proof (cases "n \<noteq> ''.'' \<and> n \<noteq> ''..'' \<and> ty = DT_DIR")
    case True
    with "4.prems" obtain s1 where g: "gitree (p @ ''/'' @ n) sub s = Inr s1"
      and r: "subdir_loop (map (slot p) (dir_children es)) s1 = Inr s'"
      by (auto simp: subdir_loop_Cons_slot split: sum.splits)
    from g have "clean sub" using "4.IH" True by blast
    moreover from r have "clean_in es" using "4.IH" by blast
    ultimately show ?thesis using True by simp
  next
    case False
    with "4.prems" have "subdir_loop (map (slot p) (dir_children es)) s = Inr s'" by auto
    then have "clean_in es" using "4.IH" by blast
    with False show ?thesis by auto
  qed
qed

lemma strip_rev_None: "(strip_rev cs = None) = (set cs \<subseteq> {CHR ''/''})"
  by (induction cs) auto

lemma strip_slashes_None: "(strip_slashes path = None) = (set path \<subseteq> {CHR ''/''})"
  by (simp add: strip_slashes_def strip_rev_None)

lemma main_walk:
  "strip_slashes path = Some p \<Longrightarrow>
     main [prog, path] t =
       (case gitree p t init of
          Inl (Undefined, s) \<Rightarrow> None
        | Inl (Exit f, s) \<Rightarrow> Some (exit_arg f, s)
        | Inr s \<Rightarrow>
            Some (0, s\<lparr>out := out s @
                        [Check_result (sum_break_layout_rule s)
                           (sum_dir_name_not_with_git s) (sum_non_bare_git s)
                           (sum_not_in_git s)]\<rparr>))"
  by (simp add: main_def)

text \<open>
  Claim C7. The program is called with one path argument that holds a character other
  than a slash. When every directory the walk reaches can be opened and is read to its
  end, the walk completes and \<^verbatim>\<open>main\<close> returns 0 after printing the summary,
  whatever the walk printed and counted; and 0 is returned in no other case. When the
  first trouble the walk meets is a directory that cannot be opened (the start directory
  or any directory below it), the run ends with \<^verbatim>\<open>exit(-1)\<close>; when it is an entry
  of unknown type, the run ends with \<^verbatim>\<open>exit(-2)\<close>. The parent process sees the
  statuses 0, 255 and 254, which differ from one another. (The stops for a full array
  and for a wrong number of arguments pass \<open>-1\<close> as well, as \<open>exit_arg\<close> shows.)
  For a path that is empty or holds slashes only, \<^verbatim>\<open>main\<close> reads in front of the
  string and the source defines no status.
\<close>

theorem exit_statuses:
  "(set path \<subseteq> {CHR ''/''} \<longrightarrow> main [prog, path] t = None) \<and>
   (\<not> set path \<subseteq> {CHR ''/''} \<longrightarrow>
      (clean t \<longrightarrow>
         (\<exists>p s. strip_slashes path = Some p \<and> gitree p t init = Inr s \<and>
            main [prog, path] t =
              Some (0, s\<lparr>out := out s @
                          [Check_result (sum_break_layout_rule s)
                             (sum_dir_name_not_with_git s) (sum_non_bare_git s)
                             (sum_not_in_git s)]\<rparr>))) \<and>
      ((\<exists>s. main [prog, path] t = Some (0, s)) \<longrightarrow> clean t) \<and>
      (meets Gitree_opendir_failed t \<longrightarrow> (\<exists>s. main [prog, path] t = Some (- 1, s))) \<and>
      (meets Unknown_file_type t \<longrightarrow> (\<exists>s. main [prog, path] t = Some (- 2, s)))) \<and>
   exit_status 0 = 0 \<and> exit_status (- 1) = 255 \<and> exit_status (- 2) = 254"
proof (intro conjI impI)
  assume "set path \<subseteq> {CHR ''/''}"
  then have "strip_slashes path = None" by (simp add: strip_slashes_None)
  then show "main [prog, path] t = None" by (simp add: main_def)
next
  assume np: "\<not> set path \<subseteq> {CHR ''/''}" and c: "clean t"
  from np obtain p where p: "strip_slashes path = Some p"
    using strip_slashes_None [of path] by (cases "strip_slashes path") auto
  from clean_returns(1) [OF c, of p init] obtain s where s: "gitree p t init = Inr s" ..
  from p s main_walk [OF p, of prog t]
  show "\<exists>p s. strip_slashes path = Some p \<and> gitree p t init = Inr s \<and>
            main [prog, path] t =
              Some (0, s\<lparr>out := out s @
                          [Check_result (sum_break_layout_rule s)
                             (sum_dir_name_not_with_git s) (sum_non_bare_git s)
                             (sum_not_in_git s)]\<rparr>)"
    by simp
next
  assume np: "\<not> set path \<subseteq> {CHR ''/''}" and m: "\<exists>s. main [prog, path] t = Some (0, s)"
  from np obtain p where p: "strip_slashes path = Some p"
    using strip_slashes_None [of path] by (cases "strip_slashes path") auto
  show "clean t"
  proof (cases "gitree p t init")
    case (Inr s)
    then show ?thesis by (rule returns_clean(1))
  next
    case (Inl x)
    obtain st s where x: "x = (st, s)" by (cases x)
    show ?thesis
    proof (cases st)
      case (Exit f)
      with Inl x m main_walk [OF p, of prog t] have "exit_arg f = 0" by auto
      then show ?thesis by (cases f) simp_all
    next
      case Undefined
      with Inl x m main_walk [OF p, of prog t] show ?thesis by simp
    qed
  qed
next
  assume np: "\<not> set path \<subseteq> {CHR ''/''}" and m: "meets Gitree_opendir_failed t"
  from np obtain p where p: "strip_slashes path = Some p"
    using strip_slashes_None [of path] by (cases "strip_slashes path") auto
  from meets_stops(1) [OF m, of p init]
  obtain s where "gitree p t init = Inl (Exit Gitree_opendir_failed, s)" ..
  with main_walk [OF p, of prog t] show "\<exists>s. main [prog, path] t = Some (- 1, s)" by simp
next
  assume np: "\<not> set path \<subseteq> {CHR ''/''}" and m: "meets Unknown_file_type t"
  from np obtain p where p: "strip_slashes path = Some p"
    using strip_slashes_None [of path] by (cases "strip_slashes path") auto
  from meets_stops(1) [OF m, of p init]
  obtain s where "gitree p t init = Inl (Exit Unknown_file_type, s)" ..
  with main_walk [OF p, of prog t] show "\<exists>s. main [prog, path] t = Some (- 2, s)" by simp
qed (simp_all add: exit_status_def)


theorem exit_statuses_witness:
  "\<not> set ''/r//'' \<subseteq> {CHR ''/''} \<and>
   clean (Some [Dirent ''f'' DT_REG None, Dirent ''sub'' DT_DIR (Some [Dirent ''g'' DT_REG None])]) \<and>
   main [''gitree'', ''/r//'']
     (Some [Dirent ''f'' DT_REG None, Dirent ''sub'' DT_DIR (Some [Dirent ''g'' DT_REG None])]) =
     Some (0, \<lparr>out = [Checking ''/r'', Not_in_git ''/r'' ''f'', Checking ''/r/sub'',
                        Not_in_git ''/r/sub'' ''g'', Check_result 0 0 0 2],
               sum_break_layout_rule = 0, sum_dir_name_not_with_git = 0,
               sum_non_bare_git = 0, sum_not_in_git = 2\<rparr>) \<and>
   meets Gitree_opendir_failed
     (Some [Dirent ''f'' DT_REG None, Dirent ''a'' DT_DIR (Some []),
            Dirent ''sub'' DT_DIR (Some [Dirent ''deep'' DT_DIR None])]) \<and>
   main [''gitree'', ''/r//'']
     (Some [Dirent ''f'' DT_REG None, Dirent ''a'' DT_DIR (Some []),
            Dirent ''sub'' DT_DIR (Some [Dirent ''deep'' DT_DIR None])]) =
     Some (- 1, \<lparr>out = [Checking ''/r'', Not_in_git ''/r'' ''f'', Checking ''/r/a'',
                          Checking ''/r/sub''],
               sum_break_layout_rule = 0, sum_dir_name_not_with_git = 0,
               sum_non_bare_git = 0, sum_not_in_git = 1\<rparr>) \<and>
   meets Unknown_file_type
     (Some [Dirent ''f'' DT_REG None, Dirent ''sub'' DT_DIR (Some [Dirent ''x'' DT_UNKNOWN None])]) \<and>
   main [''gitree'', ''/r//'']
     (Some [Dirent ''f'' DT_REG None, Dirent ''sub'' DT_DIR (Some [Dirent ''x'' DT_UNKNOWN None])]) =
     Some (- 2, \<lparr>out = [Checking ''/r'', Not_in_git ''/r'' ''f'', Checking ''/r/sub''],
               sum_break_layout_rule = 0, sum_dir_name_not_with_git = 0,
               sum_non_bare_git = 0, sum_not_in_git = 1\<rparr>) \<and>
   main [''gitree'', ''//''] (Some []) = None \<and>
   exit_status (- 1) = 255 \<and> exit_status (- 2) = 254"
proof -
  let ?t0 = "Some [Dirent ''f'' DT_REG None, Dirent ''sub'' DT_DIR (Some [Dirent ''g'' DT_REG None])]"
  let ?t1 = "Some [Dirent ''f'' DT_REG None, Dirent ''a'' DT_DIR (Some []),
            Dirent ''sub'' DT_DIR (Some [Dirent ''deep'' DT_DIR None])]"
  let ?t2 = "Some [Dirent ''f'' DT_REG None, Dirent ''sub'' DT_DIR (Some [Dirent ''x'' DT_UNKNOWN None])]"
  note ev = gitree.simps Let_def listing0_def init_def SUBDIRNO_def SUBFILENO_def
    in_exception_list_def exception_list_def main_def strip_slashes_def
  note pv = scan_ok_def is_git_tree_def SUBDIRNO_def SUBFILENO_def
  have np: "\<not> set ''/r//'' \<subseteq> {CHR ''/''}" by simp
  have sl: "set ''//'' \<subseteq> {CHR ''/''}" by simp
  have m0: "main [''gitree'', ''/r//''] ?t0 =
     Some (0, \<lparr>out = [Checking ''/r'', Not_in_git ''/r'' ''f'', Checking ''/r/sub'',
                        Not_in_git ''/r/sub'' ''g'', Check_result 0 0 0 2],
               sum_break_layout_rule = 0, sum_dir_name_not_with_git = 0,
               sum_non_bare_git = 0, sum_not_in_git = 2\<rparr>)"
    by (simp add: ev)
  have m1: "main [''gitree'', ''/r//''] ?t1 =
     Some (- 1, \<lparr>out = [Checking ''/r'', Not_in_git ''/r'' ''f'', Checking ''/r/a'',
                          Checking ''/r/sub''],
               sum_break_layout_rule = 0, sum_dir_name_not_with_git = 0,
               sum_non_bare_git = 0, sum_not_in_git = 1\<rparr>)"
    by (simp add: ev)
  have m2: "main [''gitree'', ''/r//''] ?t2 =
     Some (- 2, \<lparr>out = [Checking ''/r'', Not_in_git ''/r'' ''f'', Checking ''/r/sub''],
               sum_break_layout_rule = 0, sum_dir_name_not_with_git = 0,
               sum_non_bare_git = 0, sum_not_in_git = 1\<rparr>)"
    by (simp add: ev)
  note t0 = exit_statuses [where path = "''/r//''" and prog = "''gitree''" and t = ?t0]
  from m0 have "\<exists>s. main [''gitree'', ''/r//''] ?t0 = Some (0, s)" by (rule exI)
  with t0 [THEN conjunct2, THEN conjunct1, THEN mp, OF np, THEN conjunct2, THEN conjunct1]
  have c0: "clean ?t0" by (rule mp)
  have c1: "meets Gitree_opendir_failed ?t1" by (simp add: pv)
  have c2: "meets Unknown_file_type ?t2" by (simp add: pv)
  from exit_statuses [where path = "''//''" and prog = "''gitree''" and t = "Some []",
      THEN conjunct1] sl
  have u: "main [''gitree'', ''//''] (Some []) = None" by (rule mp)
  note e = t0 [THEN conjunct2, THEN conjunct2, THEN conjunct2]
  from np c0 m0 c1 m1 c2 m2 u e [THEN conjunct1] e [THEN conjunct2]
  show ?thesis by (intro conjI)
qed

section \<open>The older variant of the program (\<^verbatim>\<open>part_000\<close>)\<close>

text \<open>
  The second source file is the first version of the tool (``V1'' in the header comment
  of \<^verbatim>\<open>gitree.c\<close>). It runs in one of three stages chosen on the command line, finds
  a git tree by the two directories \<^verbatim>\<open>objects\<close> and \<^verbatim>\<open>refs\<close> alone, and treats
  a directory entry whose name ends with \<open>.git\<close> without looking inside it first. Its
  functions carry the suffix \<open>_v1\<close> where the name is that of a function of
  \<^verbatim>\<open>gitree.c\<close>.
\<close>

definition git_files_v1 :: "string list" where
  "git_files_v1 =
    [''COMMIT_EDITMSG'', ''config'', ''description'', ''FETCH_HEAD'', ''HEAD'', ''index'',
     ''packed-refs'', ''ORIG_HEAD'', ''MERGE_HEAD'', ''MERGE_MODE'', ''MERGE_MSG'',
     ''RENAMED-REF'', ''gitk.cache'',
     ''hooks'', ''info'', ''logs'', ''objects'', ''rebase-apply'', ''refs'', ''branches'',
     ''remotes'', ''shallow'', ''rr-cache'',
     ''cloneurl'',
     ''.repopickle_config'', ''clone.bundle'',
     ''config.bak'', ''config_bak'', ''config~'', ''description~'', ''hooks_bk'',
     ''hooks.bak'', ''hooks-bak'', ''COMMIT_EDITMSG~'', ''.gitignore'', ''pnt'', ''svn'',
     ''temp.patch'']"

definition git_tree_nonbare :: "string list" where
  "git_tree_nonbare = [''manifests'', ''repo'']"

text \<open>
  The globals \<^verbatim>\<open>stage1\<close>, \<^verbatim>\<open>stage2\<close>, \<^verbatim>\<open>stage3\<close>, set once by \<^verbatim>\<open>main\<close>.
  The fourth field is no variable of the program. For a directory entry \<^verbatim>\<open>gitree\<close>
  evaluates \<^verbatim>\<open>strncmp(d_name + subdir_len - 4, ".git", 4)\<close> without testing that the
  name has four characters; for a shorter name the comparison starts in front of
  \<^verbatim>\<open>d_name\<close>, inside the \<^verbatim>\<open>dirent\<close> structure, and its outcome is not decided by
  the source. \<open>git_short n\<close> is that outcome (true for ``equal'') for the name \<open>n\<close>.
\<close>

record conf =
  stage1 :: bool
  stage2 :: bool
  stage3 :: bool
  git_short :: "string \<Rightarrow> bool"

text \<open>
  One constructor per \<^verbatim>\<open>printf\<close> format of this variant:
  \<^item> \<open>Checking_v1 d\<close>: \<^verbatim>\<open>"Checking %s\n"\<close>
  \<^item> \<open>Breaks_layout_v1 n\<close>: \<^verbatim>\<open>"WARNING: %s breaks Git repo layout rule\n"\<close>, with
    the name of the entry only
  \<^item> \<open>Path_v1 d\<close>: \<^verbatim>\<open>"%s\n"\<close>
  \<^item> \<open>File_v1 d n\<close>: \<^verbatim>\<open>"%s/%s\n"\<close>
  \<^item> \<open>Name_not_with_git_v1 d\<close>: \<^verbatim>\<open>"WARNING: %s name not terminated with .git\n"\<close>
  \<^item> \<open>Check_result_v1 a b\<close>: the summary block of stage 1.
\<close>

datatype line_v1 =
  Checking_v1 string
| Breaks_layout_v1 string
| Path_v1 string
| File_v1 string string
| Name_not_with_git_v1 string
| Check_result_v1 int int

text \<open>The output and the counters \<^verbatim>\<open>sum\<close> and \<^verbatim>\<open>sum2\<close>.\<close>

record state_v1 =
  out_v1 :: "line_v1 list"
  sum_v1 :: int
  sum2 :: int

type_synonym result_v1 = "(stop \<times> state_v1) + state_v1"

text \<open>
  \<^verbatim>\<open>in_nonbare_exp_list\<close> advances the result of \<^verbatim>\<open>strrchr(dirname, '/')\<close> without
  testing it: for a path with no slash it compares from the address after \<^verbatim>\<open>NULL\<close>,
  which is \<open>None\<close> here.
\<close>

definition in_nonbare_exp_list :: "string \<Rightarrow> bool option" where
  "in_nonbare_exp_list dirname =
     (if CHR ''/'' \<in> set dirname
      then Some (rev (takeWhile (\<lambda>c. c \<noteq> CHR ''/'') (rev dirname)) \<in> set git_tree_nonbare)
      else None)"

fun check_loop_v1 :: "dirent list \<Rightarrow> state_v1 \<Rightarrow> state_v1" where
  "check_loop_v1 [] s = s"
| "check_loop_v1 (e # es) s =
     (if d_name e = ''.'' then check_loop_v1 es s
      else if d_name e = ''..'' then check_loop_v1 es s
      else if d_name e \<in> set git_files_v1 then check_loop_v1 es s
      else check_loop_v1 es
             (s\<lparr>sum_v1 := sum_v1 s + 1, out_v1 := out_v1 s @ [Breaks_layout_v1 (d_name e)]\<rparr>))"

definition check_gitree_v1 ::
  "conf \<Rightarrow> string \<Rightarrow> dirent list option \<Rightarrow> state_v1 \<Rightarrow> result_v1" where
  "check_gitree_v1 g dirname t s =
     (if \<not> stage1 g then Inr s
      else let s1 = s\<lparr>out_v1 := out_v1 s @ [Checking_v1 dirname]\<rparr>
           in case t of
                None \<Rightarrow> Inl (Exit Check_gitree_opendir_failed, s1)
              | Some es \<Rightarrow> Inr (check_loop_v1 es s1))"

definition check_gitree_nonbare :: "conf \<Rightarrow> string \<Rightarrow> state_v1 \<Rightarrow> result_v1" where
  "check_gitree_nonbare g dirname s =
     (if \<not> stage2 g then Inr s
      else case in_nonbare_exp_list dirname of
             None \<Rightarrow> Inl (Undefined, s)
           | Some b \<Rightarrow>
               Inr (if \<not> b then s\<lparr>out_v1 := out_v1 s @ [Path_v1 dirname]\<rparr> else s))"

text \<open>
  A slot of the arrays \<^verbatim>\<open>subdir\<close>, \<^verbatim>\<open>git\<close> and \<^verbatim>\<open>git_bare\<close>, which share the
  index \<^verbatim>\<open>i\<close>: the path, what opening it yields, and the two flags.
\<close>

record slot_v1 =
  s_path :: string
  s_sub :: "dirent list option"
  git :: bool
  git_bare :: bool

record listing_v1 =
  subdir_v1 :: "slot_v1 list"
  has_dir_objects_v1 :: bool
  has_dir_refs_v1 :: bool

definition listing0_v1 :: listing_v1 where
  "listing0_v1 = \<lparr>subdir_v1 = [], has_dir_objects_v1 = False, has_dir_refs_v1 = False\<rparr>"

text \<open>The outcome of the comparison of the last four characters with \<open>.git\<close>.\<close>

definition name_with_git :: "conf \<Rightarrow> string \<Rightarrow> bool" where
  "name_with_git g n =
     (if 4 \<le> length n then drop (length n - 4) n = ''.git'' else git_short g n)"

definition new_slot :: "conf \<Rightarrow> string \<Rightarrow> dirent \<Rightarrow> slot_v1" where
  "new_slot g dirname e =
     \<lparr>s_path = dirname @ ''/'' @ d_name e, s_sub = d_sub e,
      git = name_with_git g (d_name e),
      git_bare = (name_with_git g (d_name e) \<and> length (d_name e) \<noteq> 4)\<rparr>"

text \<open>The \<^verbatim>\<open>readdir\<close> loop; in stage 3 it prints the regular files as it meets them.\<close>

fun readdir_loop_v1 ::
  "conf \<Rightarrow> string \<Rightarrow> dirent list \<Rightarrow> listing_v1 \<Rightarrow> state_v1 \<Rightarrow>
     (stop \<times> state_v1) + (listing_v1 \<times> state_v1)" where
  "readdir_loop_v1 g dirname [] ls s = Inr (ls, s)"
| "readdir_loop_v1 g dirname (e # es) ls s =
     (if d_name e = ''.'' then readdir_loop_v1 g dirname es ls s
      else if d_name e = ''..'' then readdir_loop_v1 g dirname es ls s
      else if d_type e = DT_DIR then
        (if SUBDIRNO \<le> length (subdir_v1 ls) then Inl (Undefined, s)
         else
           let ls' = ls\<lparr>subdir_v1 := subdir_v1 ls @ [new_slot g dirname e],
                        has_dir_objects_v1 := (has_dir_objects_v1 ls \<or> d_name e = ''objects''),
                        has_dir_refs_v1 := (has_dir_refs_v1 ls \<or> d_name e = ''refs'')\<rparr>
           in if SUBDIRNO \<le> length (subdir_v1 ls') then Inl (Exit Reach_max_dir_num, s)
              else readdir_loop_v1 g dirname es ls' s)
      else if d_type e = DT_REG then
        (if stage3 g then
           (case in_nonbare_exp_list dirname of
              None \<Rightarrow> Inl (Undefined, s)
            | Some b \<Rightarrow>
                readdir_loop_v1 g dirname es ls
                  (if \<not> b then s\<lparr>out_v1 := out_v1 s @ [File_v1 dirname (d_name e)]\<rparr>
                   else s))
         else readdir_loop_v1 g dirname es ls s)
      else if d_type e = DT_UNKNOWN then Inl (Exit Unknown_file_type, s)
      else readdir_loop_v1 g dirname es ls s)"

definition slots_size_v1 :: "slot_v1 list \<Rightarrow> nat" where
  "slots_size_v1 sls = sum_list (map (\<lambda>sl. Suc (size_option (size_list size) (s_sub sl))) sls)"

lemma slots_size_v1_simps:
  "slots_size_v1 [] = 0"
  "slots_size_v1 (sl # sls) = Suc (size_option (size_list size) (s_sub sl)) + slots_size_v1 sls"
  "slots_size_v1 (sls @ sls') = slots_size_v1 sls + slots_size_v1 sls'"
  by (simp_all add: slots_size_v1_def)

lemma readdir_loop_v1_size:
  "readdir_loop_v1 g dirname es ls s = Inr (ls', s') \<Longrightarrow>
     slots_size_v1 (subdir_v1 ls') \<le> slots_size_v1 (subdir_v1 ls) + size_list size es"
proof (induction es arbitrary: ls s)
  case Nil
  then show ?case by simp
next
  case (Cons e es)
  show ?case
  proof (cases e)
    case (Dirent n ty sub)
    with Cons.prems Cons.IH show ?thesis
      by (fastforce simp: Let_def slots_size_v1_simps new_slot_def
            split: if_splits option.splits)
  qed
qed

text \<open>
  \<^verbatim>\<open>gitree\<close> of this variant, and its loop over the slots; \<open>skip\<close> is
  \<^verbatim>\<open>skip_subtree_check\<close>.
\<close>

function gitree_v1 :: "conf \<Rightarrow> string \<Rightarrow> dirent list option \<Rightarrow> state_v1 \<Rightarrow> result_v1"
  and subdir_loop_v1 :: "conf \<Rightarrow> string \<Rightarrow> bool \<Rightarrow> slot_v1 list \<Rightarrow> state_v1 \<Rightarrow> result_v1"
where
  "gitree_v1 g dirname None s = Inl (Exit Gitree_opendir_failed, s)"
| "gitree_v1 g dirname (Some es) s =
     (case readdir_loop_v1 g dirname es listing0_v1 s of
        Inl x \<Rightarrow> Inl x
      | Inr (ls, s1) \<Rightarrow>
          if has_dir_objects_v1 ls \<and> has_dir_refs_v1 ls then
            (case check_gitree_v1 g dirname (Some es) s1 of
               Inl x \<Rightarrow> Inl x
             | Inr s2 \<Rightarrow>
                 subdir_loop_v1 g dirname True (subdir_v1 ls)
                   (if stage1 g
                    then s2\<lparr>out_v1 := out_v1 s2 @ [Name_not_with_git_v1 dirname],
                            sum2 := sum2 s2 + 1\<rparr>
                    else s2))
          else subdir_loop_v1 g dirname False (subdir_v1 ls) s1)"
| "subdir_loop_v1 g dirname skip [] s = Inr s"
| "subdir_loop_v1 g dirname skip (sl # sls) s =
     (if \<not> skip then
        (if git sl then
           (case check_gitree_v1 g (s_path sl) (s_sub sl) s of
              Inl x \<Rightarrow> Inl x
            | Inr s1 \<Rightarrow>
                (case (if \<not> git_bare sl then check_gitree_nonbare g dirname s1 else Inr s1) of
                   Inl x \<Rightarrow> Inl x
                 | Inr s2 \<Rightarrow> subdir_loop_v1 g dirname skip sls s2))
         else if \<not> stage3 g then
           (case gitree_v1 g (s_path sl) (s_sub sl) s of
              Inl x \<Rightarrow> Inl x
            | Inr s1 \<Rightarrow> subdir_loop_v1 g dirname skip sls s1)
         else
           (case in_nonbare_exp_list dirname of
              None \<Rightarrow> Inl (Undefined, s)
            | Some b \<Rightarrow>
                if \<not> b then
                  (case gitree_v1 g (s_path sl) (s_sub sl) s of
                     Inl x \<Rightarrow> Inl x
                   | Inr s1 \<Rightarrow> subdir_loop_v1 g dirname skip sls s1)
                else subdir_loop_v1 g dirname skip sls s))
      else subdir_loop_v1 g dirname skip sls s)"
  by pat_completeness auto
termination
  apply (relation "measure (\<lambda>x. case x of
                    Inl (g, dirname, t, s) \<Rightarrow> size_option (size_list size) t
                  | Inr (g, dirname, skip, sls, s) \<Rightarrow> slots_size_v1 sls)")
  apply (auto simp: slots_size_v1_simps listing0_v1_def dest!: readdir_loop_v1_size)
  done

text \<open>
  Vocabulary for the statements about both variants: running a step after a result that
  returned; a listing with the two marker directories; the slots of a listing with what
  lies under them forgotten.
\<close>

definition andthen :: "('e + 's) \<Rightarrow> ('s \<Rightarrow> 'e + 's) \<Rightarrow> 'e + 's" where
  "andthen r f = (case r of Inl x \<Rightarrow> Inl x | Inr s \<Rightarrow> f s)"

definition has_markers :: "dirent list \<Rightarrow> bool" where
  "has_markers es \<longleftrightarrow>
     ''objects'' \<in> d_name ` set (dir_children es) \<and> ''refs'' \<in> d_name ` set (dir_children es)"

definition hollow_slots :: "listing_v1 \<Rightarrow> listing_v1" where
  "hollow_slots ls = ls\<lparr>subdir_v1 := map (\<lambda>sl. sl\<lparr>s_sub := None\<rparr>) (subdir_v1 ls)\<rparr>"

section \<open>The older variant, in closed form\<close>

lemma andthen_simps [simp]: "andthen (Inl x) f = Inl x" "andthen (Inr s) f = f s"
  by (simp_all add: andthen_def)

lemma gitree_v1_stop:
  "readdir_loop_v1 g dirname es listing0_v1 s = Inl x \<Longrightarrow> gitree_v1 g dirname (Some es) s = Inl x"
  by simp

lemma gitree_v1_tree:
  "readdir_loop_v1 g dirname es listing0_v1 s = Inr (ls, s1) \<Longrightarrow>
   has_dir_objects_v1 ls \<and> has_dir_refs_v1 ls \<Longrightarrow>
     gitree_v1 g dirname (Some es) s =
       andthen (check_gitree_v1 g dirname (Some es) s1)
         (\<lambda>s2. subdir_loop_v1 g dirname True (subdir_v1 ls)
                  (if stage1 g
                   then s2\<lparr>out_v1 := out_v1 s2 @ [Name_not_with_git_v1 dirname],
                           sum2 := sum2 s2 + 1\<rparr>
                   else s2))"
  by (simp add: andthen_def)

lemma gitree_v1_walk:
  "readdir_loop_v1 g dirname es listing0_v1 s = Inr (ls, s1) \<Longrightarrow>
   \<not> (has_dir_objects_v1 ls \<and> has_dir_refs_v1 ls) \<Longrightarrow>
     gitree_v1 g dirname (Some es) s = subdir_loop_v1 g dirname False (subdir_v1 ls) s1"
  by auto

declare gitree_v1.simps(2) [simp del]

lemma subdir_loop_v1_skip: "subdir_loop_v1 g dirname True sls s = Inr s"
  by (induction sls) simp_all

lemma readdir_loop_v1_Inr:
  "readdir_loop_v1 g dirname es ls s = Inr (ls', s') \<Longrightarrow>
     subdir_v1 ls' = subdir_v1 ls @ map (new_slot g dirname) (dir_children es) \<and>
     has_dir_objects_v1 ls' =
       (has_dir_objects_v1 ls \<or> ''objects'' \<in> d_name ` set (dir_children es)) \<and>
     has_dir_refs_v1 ls' = (has_dir_refs_v1 ls \<or> ''refs'' \<in> d_name ` set (dir_children es))"
proof (induction es arbitrary: ls s)
  case Nil
  then show ?case by simp
next
  case (Cons e es)
  show ?case
  proof (cases "d_name e = ''.'' \<or> d_name e = ''..''")
    case True
    with Cons.prems have "readdir_loop_v1 g dirname es ls s = Inr (ls', s')" by auto
    from Cons.IH [OF this] True show ?thesis by auto
  next
    case False
    note nd = this
    show ?thesis
    proof (cases "d_type e = DT_DIR")
      case True
      let ?ls = "ls\<lparr>subdir_v1 := subdir_v1 ls @ [new_slot g dirname e],
                        has_dir_objects_v1 := (has_dir_objects_v1 ls \<or> d_name e = ''objects''),
                        has_dir_refs_v1 := (has_dir_refs_v1 ls \<or> d_name e = ''refs'')\<rparr>"
      from Cons.prems nd True have "readdir_loop_v1 g dirname es ?ls s = Inr (ls', s')"
        by (simp add: Let_def split: if_splits)
      from Cons.IH [OF this] nd True show ?thesis by auto
    next
      case False
      with Cons.prems nd obtain s0 where "readdir_loop_v1 g dirname es ls s0 = Inr (ls', s')"
        by (auto split: if_splits option.splits)
      from Cons.IH [OF this] nd False show ?thesis by auto
    qed
  qed
qed

lemma new_slot_hollow: "new_slot g dirname (hollow e) = (new_slot g dirname e)\<lparr>s_sub := None\<rparr>"
  by (simp add: new_slot_def hollow_def)

lemma hollow_slots_sel [simp]:
  "has_dir_objects_v1 (hollow_slots ls) = has_dir_objects_v1 ls"
  "has_dir_refs_v1 (hollow_slots ls) = has_dir_refs_v1 ls"
  "length (subdir_v1 (hollow_slots ls)) = length (subdir_v1 ls)"
  by (simp_all add: hollow_slots_def)

lemma readdir_loop_v1_hollow:
  "readdir_loop_v1 g dirname (map hollow es) (hollow_slots ls) s =
     map_sum id (\<lambda>(ls', s'). (hollow_slots ls', s')) (readdir_loop_v1 g dirname es ls s)"
proof (induction es arbitrary: ls s)
  case Nil
  show ?case by simp
next
  case (Cons e es)
  have upd: "(hollow_slots ls)\<lparr>subdir_v1 := subdir_v1 (hollow_slots ls) @ [new_slot g dirname (hollow e)],
                        has_dir_objects_v1 := a, has_dir_refs_v1 := b\<rparr> =
             hollow_slots (ls\<lparr>subdir_v1 := subdir_v1 ls @ [new_slot g dirname e],
                        has_dir_objects_v1 := a, has_dir_refs_v1 := b\<rparr>)" for a b
    by (simp add: hollow_slots_def new_slot_hollow)
  show ?case
    by (simp add: Let_def upd Cons.IH split: option.splits)
qed

lemma check_loop_v1_hollow: "check_loop_v1 (map hollow es) s = check_loop_v1 es s"
  by (induction es arbitrary: s) simp_all

lemma check_gitree_v1_hollow:
  "check_gitree_v1 g dirname (Some (map hollow es)) s = check_gitree_v1 g dirname (Some es) s"
  by (simp add: check_gitree_v1_def check_loop_v1_hollow)

lemma hollow_listing0 [simp]: "hollow_slots listing0_v1 = listing0_v1"
  by (simp add: hollow_slots_def listing0_v1_def)

lemma gitree_v1_tree_hollow:
  assumes "has_markers es"
  shows "gitree_v1 g dirname (Some (map hollow es)) s = gitree_v1 g dirname (Some es) s"
proof (cases "readdir_loop_v1 g dirname es listing0_v1 s")
  case (Inl x)
  with readdir_loop_v1_hollow [of g dirname es listing0_v1 s]
  have "readdir_loop_v1 g dirname (map hollow es) listing0_v1 s = Inl x" by simp
  with Inl show ?thesis by (simp add: gitree_v1_stop)
next
  case (Inr p)
  obtain ls s1 where p: "p = (ls, s1)" by (cases p)
  with Inr have r: "readdir_loop_v1 g dirname es listing0_v1 s = Inr (ls, s1)" by simp
  with readdir_loop_v1_hollow [of g dirname es listing0_v1 s]
  have r': "readdir_loop_v1 g dirname (map hollow es) listing0_v1 s = Inr (hollow_slots ls, s1)"
    by simp
  from readdir_loop_v1_Inr [OF r] assms
  have f: "has_dir_objects_v1 ls \<and> has_dir_refs_v1 ls"
    by (simp add: has_markers_def listing0_v1_def)
  then have f': "has_dir_objects_v1 (hollow_slots ls) \<and> has_dir_refs_v1 (hollow_slots ls)"
    by simp
  show ?thesis
    by (simp add: gitree_v1_tree [OF r f] gitree_v1_tree [OF r' f'] subdir_loop_v1_skip
          check_gitree_v1_hollow)
qed

lemma gitree_v1_tree_shape:
  assumes "has_markers es" and "shape es' = shape es"
  shows "gitree_v1 g dirname (Some es') s = gitree_v1 g dirname (Some es) s"
proof -
  from shape_hollow [OF assms(2)] have h: "map hollow es' = map hollow es" .
  have "has_markers (map hollow es) = has_markers es" for es
    by (simp add: has_markers_def dir_children_hollow image_image)
  from this [of es'] this [of es] h assms(1) have "has_markers es'" by simp
  from gitree_v1_tree_hollow [OF this, of g dirname s]
    gitree_v1_tree_hollow [OF assms(1), of g dirname s] h
  show ?thesis by simp
qed

lemma gitree_v1_tree_closed:
  assumes "readdir_loop_v1 g dirname es listing0_v1 s = Inr (ls, s1)" and "has_markers es"
  shows "gitree_v1 g dirname (Some es) s =
           andthen (check_gitree_v1 g dirname (Some es) s1)
             (\<lambda>s2. Inr (if stage1 g
                        then s2\<lparr>out_v1 := out_v1 s2 @ [Name_not_with_git_v1 dirname],
                                sum2 := sum2 s2 + 1\<rparr>
                        else s2))"
proof -
  from readdir_loop_v1_Inr [OF assms(1)] assms(2)
  have f: "has_dir_objects_v1 ls \<and> has_dir_refs_v1 ls"
    by (simp add: has_markers_def listing0_v1_def)
  show ?thesis
    by (simp add: gitree_v1_tree [OF assms(1) f] subdir_loop_v1_skip)
qed

lemma andthen_assoc:
  "andthen r (\<lambda>s. andthen (f s) h) = andthen (andthen r f) h"
  by (cases r) simp_all

lemma subdir_loop_append:
  "subdir_loop (xs @ ys) s = andthen (subdir_loop xs s) (subdir_loop ys)"
proof (induction xs arbitrary: s)
  case Nil
  show ?case by simp
next
  case (Cons a xs)
  obtain p t where a: "a = (p, t)" by (cases a)
  show ?case
    by (cases "gitree p t s") (simp_all add: a Cons.IH)
qed

lemma subdir_loop_single:
  "subdir_loop [slot dirname e] s = gitree (dirname @ ''/'' @ d_name e) (d_sub e) s"
  by (cases "gitree (dirname @ ''/'' @ d_name e) (d_sub e) s") (simp_all add: slot_def)

lemma subdir_loop_v1_append:
  "subdir_loop_v1 g d False (xs @ ys) s =
     andthen (subdir_loop_v1 g d False xs s) (subdir_loop_v1 g d False ys)"
proof (induction xs arbitrary: s)
  case Nil
  show ?case by simp
next
  case (Cons sl xs)
  show ?case
    by (simp add: Cons.IH split: sum.splits option.splits)
qed

lemma v1_single_git_bare:
  "git sl \<Longrightarrow> git_bare sl \<Longrightarrow>
     subdir_loop_v1 g d False [sl] s = check_gitree_v1 g (s_path sl) (s_sub sl) s"
  by (simp split: sum.splits)

lemma v1_single_git_nonbare:
  "git sl \<Longrightarrow> \<not> git_bare sl \<Longrightarrow>
     subdir_loop_v1 g d False [sl] s =
       andthen (check_gitree_v1 g (s_path sl) (s_sub sl) s) (check_gitree_nonbare g d)"
  by (simp add: andthen_def split: sum.splits)

lemma v1_single_other:
  "\<not> git sl \<Longrightarrow> \<not> stage3 g \<or> in_nonbare_exp_list d = Some False \<Longrightarrow>
     subdir_loop_v1 g d False [sl] s = gitree_v1 g (s_path sl) (s_sub sl) s"
  by (auto split: sum.splits)

lemma v1_single_exempt:
  "\<not> git sl \<Longrightarrow> stage3 g \<Longrightarrow> in_nonbare_exp_list d = Some True \<Longrightarrow>
     subdir_loop_v1 g d False [sl] s = Inr s"
  by simp

lemma new_slot_sel [simp]:
  "s_path (new_slot g dirname e) = dirname @ ''/'' @ d_name e"
  "s_sub (new_slot g dirname e) = d_sub e"
  "git (new_slot g dirname e) = name_with_git g (d_name e)"
  "git_bare (new_slot g dirname e) = (name_with_git g (d_name e) \<and> length (d_name e) \<noteq> 4)"
  by (simp_all add: new_slot_def)

lemma gitree_walk_at:
  assumes "scan_ok es" and "\<not> is_git_tree es" and "dir_children es = xs @ e # ys"
  shows "gitree dirname (Some es) s =
     andthen (andthen
       (subdir_loop (map (slot dirname) xs)
          (subfile_loop dirname (map d_name (file_children es))
             (s\<lparr>out := out s @ [Checking dirname]\<rparr>)))
       (gitree (dirname @ ''/'' @ d_name e) (d_sub e)))
       (subdir_loop (map (slot dirname) ys))"
proof -
  have "map (slot dirname) (dir_children es) =
          map (slot dirname) xs @ [slot dirname e] @ map (slot dirname) ys"
    by (simp add: assms(3))
  then show ?thesis
    unfolding gitree_walk [OF assms(1,2)]
    by (simp only: subdir_loop_append andthen_def subdir_loop_single split: sum.splits) simp
qed

lemma gitree_v1_walk_at:
  assumes "readdir_loop_v1 g dirname es listing0_v1 v = Inr (ls, v1)"
    and "\<not> has_markers es" and "dir_children es = xs @ e # ys"
  shows "gitree_v1 g dirname (Some es) v =
     andthen (andthen
       (subdir_loop_v1 g dirname False (map (new_slot g dirname) xs) v1)
       (subdir_loop_v1 g dirname False [new_slot g dirname e]))
       (subdir_loop_v1 g dirname False (map (new_slot g dirname) ys))"
proof -
  from readdir_loop_v1_Inr [OF assms(1)] assms(2)
  have f: "\<not> (has_dir_objects_v1 ls \<and> has_dir_refs_v1 ls)"
    and sd: "subdir_v1 ls = map (new_slot g dirname) (dir_children es)"
    by (simp_all add: has_markers_def listing0_v1_def)
  have "subdir_v1 ls = map (new_slot g dirname) xs @ [new_slot g dirname e] @
          map (new_slot g dirname) ys"
    by (simp add: sd assms(3))
  moreover
  have "subdir_loop_v1 g dirname False
          (map (new_slot g dirname) xs @ [new_slot g dirname e] @ map (new_slot g dirname) ys) v1 =
        andthen (subdir_loop_v1 g dirname False (map (new_slot g dirname) xs) v1)
          (subdir_loop_v1 g dirname False
             ([new_slot g dirname e] @ map (new_slot g dirname) ys))"
    by (rule subdir_loop_v1_append)
  moreover
  have "subdir_loop_v1 g dirname False ([new_slot g dirname e] @ map (new_slot g dirname) ys) =
        (\<lambda>s. andthen (subdir_loop_v1 g dirname False [new_slot g dirname e] s)
               (subdir_loop_v1 g dirname False (map (new_slot g dirname) ys)))"
    by (rule ext) (rule subdir_loop_v1_append)
  ultimately show ?thesis
    unfolding gitree_v1_walk [OF assms(1) f]
    by (simp only: andthen_assoc)
qed

lemma name_with_git_long:
  "4 \<le> length n \<Longrightarrow> name_with_git g n = (drop (length n - 4) n = ''.git'')"
  by (simp add: name_with_git_def)

lemma check_gitree_v1_stage1:
  "stage1 g \<Longrightarrow> check_gitree_v1 g p (Some cs) w =
     Inr (check_loop_v1 cs (w\<lparr>out_v1 := out_v1 w @ [Checking_v1 p]\<rparr>))"
  by (simp add: check_gitree_v1_def)

lemma check_gitree_v1_other: "\<not> stage1 g \<Longrightarrow> check_gitree_v1 g p t w = Inr w"
  by (simp add: check_gitree_v1_def)

section \<open>Git trees are not entered\<close>

text \<open>
  Claim C1, as amended. In \<^verbatim>\<open>gitree.c\<close> a directory is taken for a git tree when its
  listing, read to the end, holds the directories \<open>objects\<close> and \<open>refs\<close> and also a
  regular file \<open>HEAD\<close>; the visit is then the check of that directory itself and
  nothing else, and none of its entries is opened: the visit is the same for every
  listing with the same names and types. In the older variant the two directories are
  enough: when the listing is read to the end the visit is the layout check of the
  directory (which acts in stage 1) followed, in stage 1, by the warning that the name
  is not terminated with \<open>.git\<close>, and again no entry is opened.
\<close>

theorem git_tree_not_entered:
  "(scan_ok es \<and> is_git_tree es \<longrightarrow>
      gitree dirname (Some es) s =
        check_gitree dirname (Some es) (s\<lparr>out := out s @ [Checking dirname]\<rparr>) \<and>
      (\<forall>es'. shape es' = shape es \<longrightarrow>
         gitree dirname (Some es') s = gitree dirname (Some es) s)) \<and>
   (has_markers es \<longrightarrow>
      (\<forall>ls v1. readdir_loop_v1 g dirname es listing0_v1 v = Inr (ls, v1) \<longrightarrow>
         gitree_v1 g dirname (Some es) v =
           andthen (check_gitree_v1 g dirname (Some es) v1)
             (\<lambda>s2. Inr (if stage1 g
                        then s2\<lparr>out_v1 := out_v1 s2 @ [Name_not_with_git_v1 dirname],
                                sum2 := sum2 s2 + 1\<rparr>
                        else s2))) \<and>
      (\<forall>es'. shape es' = shape es \<longrightarrow>
         gitree_v1 g dirname (Some es') v = gitree_v1 g dirname (Some es) v))"
proof (intro conjI impI allI)
  assume "scan_ok es \<and> is_git_tree es"
  then show "gitree dirname (Some es) s =
        check_gitree dirname (Some es) (s\<lparr>out := out s @ [Checking dirname]\<rparr>)"
    by (intro gitree_tree) simp_all
next
  fix es'
  assume "scan_ok es \<and> is_git_tree es" and "shape es' = shape es"
  then show "gitree dirname (Some es') s = gitree dirname (Some es) s"
    by (intro gitree_tree_shape) simp_all
next
  fix ls v1
  assume "has_markers es" and "readdir_loop_v1 g dirname es listing0_v1 v = Inr (ls, v1)"
  then show "gitree_v1 g dirname (Some es) v =
           andthen (check_gitree_v1 g dirname (Some es) v1)
             (\<lambda>s2. Inr (if stage1 g
                        then s2\<lparr>out_v1 := out_v1 s2 @ [Name_not_with_git_v1 dirname],
                                sum2 := sum2 s2 + 1\<rparr>
                        else s2))"
    by (intro gitree_v1_tree_closed)
next
  fix es'
  assume "has_markers es" and "shape es' = shape es"
  then show "gitree_v1 g dirname (Some es') v = gitree_v1 g dirname (Some es) v"
    by (rule gitree_v1_tree_shape)
qed

theorem git_tree_not_entered_witness:
  "scan_ok [Dirent ''objects'' DT_DIR (Some [Dirent ''x'' DT_REG None]),
            Dirent ''refs'' DT_DIR None, Dirent ''HEAD'' DT_REG None] \<and>
   is_git_tree [Dirent ''objects'' DT_DIR (Some [Dirent ''x'' DT_REG None]),
            Dirent ''refs'' DT_DIR None, Dirent ''HEAD'' DT_REG None] \<and>
   gitree ''/x/bare.git''
     (Some [Dirent ''objects'' DT_DIR (Some [Dirent ''x'' DT_REG None]),
            Dirent ''refs'' DT_DIR None, Dirent ''HEAD'' DT_REG None]) init =
     Inr \<lparr>out = [Checking ''/x/bare.git''], sum_break_layout_rule = 0,
          sum_dir_name_not_with_git = 0, sum_non_bare_git = 0, sum_not_in_git = 0\<rparr> \<and>
   has_markers [Dirent ''objects'' DT_DIR (Some [Dirent ''x'' DT_REG None]),
            Dirent ''refs'' DT_DIR None] \<and>
   gitree_v1 \<lparr>stage1 = True, stage2 = False, stage3 = False, git_short = (\<lambda>n. False)\<rparr>
     ''/x/bare.git''
     (Some [Dirent ''objects'' DT_DIR (Some [Dirent ''x'' DT_REG None]),
            Dirent ''refs'' DT_DIR None])
     \<lparr>out_v1 = [], sum_v1 = 0, sum2 = 0\<rparr> =
     Inr \<lparr>out_v1 = [Checking_v1 ''/x/bare.git'', Name_not_with_git_v1 ''/x/bare.git''],
          sum_v1 = 0, sum2 = 1\<rparr>"
proof -
  let ?es = "[Dirent ''objects'' DT_DIR (Some [Dirent ''x'' DT_REG None]),
            Dirent ''refs'' DT_DIR None, Dirent ''HEAD'' DT_REG None]"
  let ?es1 = "[Dirent ''objects'' DT_DIR (Some [Dirent ''x'' DT_REG None]),
            Dirent ''refs'' DT_DIR None]"
  let ?g = "\<lparr>stage1 = True, stage2 = False, stage3 = False, git_short = (\<lambda>n. False)\<rparr>"
  let ?v = "\<lparr>out_v1 = [], sum_v1 = 0, sum2 = 0\<rparr>"
  have h1: "scan_ok ?es \<and> is_git_tree ?es"
    by (simp add: scan_ok_def is_git_tree_def SUBDIRNO_def SUBFILENO_def)
  have h2: "has_markers ?es1" by (simp add: has_markers_def)
  have r: "readdir_loop_v1 ?g ''/x/bare.git'' ?es1 listing0_v1 ?v =
             Inr (\<lparr>subdir_v1 = [new_slot ?g ''/x/bare.git''
                                   (Dirent ''objects'' DT_DIR (Some [Dirent ''x'' DT_REG None])),
                                 new_slot ?g ''/x/bare.git'' (Dirent ''refs'' DT_DIR None)],
                    has_dir_objects_v1 = True, has_dir_refs_v1 = True\<rparr>, ?v)"
    by (simp add: listing0_v1_def Let_def SUBDIRNO_def)
  note t = git_tree_not_entered [where es = ?es and dirname = "''/x/bare.git''" and s = init]
  from t [THEN conjunct1, THEN mp, OF h1, THEN conjunct1]
  have a: "gitree ''/x/bare.git'' (Some ?es) init =
     Inr \<lparr>out = [Checking ''/x/bare.git''], sum_break_layout_rule = 0,
          sum_dir_name_not_with_git = 0, sum_non_bare_git = 0, sum_not_in_git = 0\<rparr>"
    by (simp add: check_gitree_def dir_name_with_git_def last_dir_def init_def git_files_def)
  from git_tree_not_entered [where es = ?es1 and g = ?g and dirname = "''/x/bare.git''"
      and v = ?v,
      THEN conjunct2, THEN mp, OF h2, THEN conjunct1, THEN spec, THEN spec, THEN mp, OF r]
  have b: "gitree_v1 ?g ''/x/bare.git'' (Some ?es1) ?v =
     Inr \<lparr>out_v1 = [Checking_v1 ''/x/bare.git'', Name_not_with_git_v1 ''/x/bare.git''],
          sum_v1 = 0, sum2 = 1\<rparr>"
    by (simp add: check_gitree_v1_def git_files_v1_def)
  from h1 [THEN conjunct1] h1 [THEN conjunct2] a h2 b show ?thesis by (intro conjI)
qed

text \<open>
  The claim as stated fails on \<^verbatim>\<open>gitree.c\<close>: a directory with \<open>objects\<close> and
  \<open>refs\<close> but no \<open>HEAD\<close> is walked like any other directory, and a file in its
  \<open>objects\<close> is reported.
\<close>

theorem markers_without_head_counterexample:
  "''objects'' \<in> d_name ` set (dir_children
      [Dirent ''objects'' DT_DIR (Some [Dirent ''x'' DT_REG None]),
       Dirent ''refs'' DT_DIR (Some [])]) \<and>
   ''refs'' \<in> d_name ` set (dir_children
      [Dirent ''objects'' DT_DIR (Some [Dirent ''x'' DT_REG None]),
       Dirent ''refs'' DT_DIR (Some [])]) \<and>
   gitree ''/x/bare.git''
     (Some [Dirent ''objects'' DT_DIR (Some [Dirent ''x'' DT_REG None]),
            Dirent ''refs'' DT_DIR (Some [])]) init =
     Inr \<lparr>out = [Checking ''/x/bare.git'', Checking ''/x/bare.git/objects'',
                 Not_in_git ''/x/bare.git/objects'' ''x'', Checking ''/x/bare.git/refs''],
          sum_break_layout_rule = 0, sum_dir_name_not_with_git = 0,
          sum_non_bare_git = 0, sum_not_in_git = 1\<rparr>"
  by (simp add: gitree.simps Let_def listing0_def init_def SUBDIRNO_def SUBFILENO_def
        in_exception_list_def exception_list_def)

section \<open>How directory entries are treated\<close>

text \<open>
  Claim C2, as amended. Take a directory that is no git tree and whose listing is read
  to the end, and any directory \<open>e\<close> of its listing, with the directories \<open>xs\<close>
  before it and \<open>ys\<close> after it. In \<^verbatim>\<open>gitree.c\<close> the visit treats \<open>xs\<close>, then
  calls \<^verbatim>\<open>gitree\<close> on \<open>e\<close>, then treats \<open>ys\<close>: every directory is entered by
  the general recursion, whatever its name, and there is no treatment by name. In the
  older variant the visit treats \<open>xs\<close>, then \<open>e\<close>, then \<open>ys\<close>, and the treatment
  of \<open>e\<close> goes by the outcome of the comparison of the last four characters of its
  name with \<open>.git\<close>.
  \<^item> For a name of four characters or more the outcome is whether the name ends with
    \<open>.git\<close>. For a shorter name the comparison reads in front of the name and the
    source does not decide the outcome: it is \<open>git_short\<close>.
  \<^item> Outcome ``equal'', name not of length four: the layout check of \<open>e\<close>, directly,
    with no recursion.
  \<^item> Outcome ``equal'', name of length four (the name is \<open>.git\<close>): the layout check
    of \<open>e\<close>, then the non-bare report for the parent, which does nothing outside
    stage 2 and, in stage 2, is undefined for a parent path with no slash.
  \<^item> Outcome ``different'': outside stage 3 \<open>e\<close> is entered by the general
    recursion. In stage 3 it is entered when the parent path holds a slash and its last
    component is neither \<open>manifests\<close> nor \<open>repo\<close>, passed over when that
    component is one of the two, and the behaviour is undefined when the parent path
    holds no slash.
  \<^item> The layout check prints and counts in stage 1 and does nothing in the other
    stages; it never tests the name or the contents for a git tree.
\<close>

theorem directory_children:
  "(scan_ok es \<and> \<not> is_git_tree es \<and> dir_children es = xs @ e # ys \<longrightarrow>
      gitree dirname (Some es) s =
        andthen (andthen
          (subdir_loop (map (slot dirname) xs)
             (subfile_loop dirname (map d_name (file_children es))
                (s\<lparr>out := out s @ [Checking dirname]\<rparr>)))
          (gitree (dirname @ ''/'' @ d_name e) (d_sub e)))
          (subdir_loop (map (slot dirname) ys))) \<and>
   (readdir_loop_v1 g dirname es listing0_v1 v = Inr (ls, v1) \<and> \<not> has_markers es \<and>
    dir_children es = xs @ e # ys \<longrightarrow>
      gitree_v1 g dirname (Some es) v =
        andthen (andthen
          (subdir_loop_v1 g dirname False (map (new_slot g dirname) xs) v1)
          (subdir_loop_v1 g dirname False [new_slot g dirname e]))
          (subdir_loop_v1 g dirname False (map (new_slot g dirname) ys))) \<and>
   (4 \<le> length (d_name e) \<longrightarrow>
      name_with_git g (d_name e) = (drop (length (d_name e) - 4) (d_name e) = ''.git'')) \<and>
   (name_with_git g (d_name e) \<and> length (d_name e) \<noteq> 4 \<longrightarrow>
      subdir_loop_v1 g dirname False [new_slot g dirname e] w =
        check_gitree_v1 g (dirname @ ''/'' @ d_name e) (d_sub e) w) \<and>
   (name_with_git g (d_name e) \<and> length (d_name e) = 4 \<longrightarrow>
      subdir_loop_v1 g dirname False [new_slot g dirname e] w =
        andthen (check_gitree_v1 g (dirname @ ''/'' @ d_name e) (d_sub e) w)
          (check_gitree_nonbare g dirname)) \<and>
   (\<not> name_with_git g (d_name e) \<and>
    (\<not> stage3 g \<or> in_nonbare_exp_list dirname = Some False) \<longrightarrow>
      subdir_loop_v1 g dirname False [new_slot g dirname e] w =
        gitree_v1 g (dirname @ ''/'' @ d_name e) (d_sub e) w) \<and>
   (\<not> name_with_git g (d_name e) \<and> stage3 g \<and> in_nonbare_exp_list dirname = Some True \<longrightarrow>
      subdir_loop_v1 g dirname False [new_slot g dirname e] w = Inr w) \<and>
   (stage1 g \<longrightarrow>
      check_gitree_v1 g (dirname @ ''/'' @ d_name e) (Some cs) w =
        Inr (check_loop_v1 cs
               (w\<lparr>out_v1 := out_v1 w @ [Checking_v1 (dirname @ ''/'' @ d_name e)]\<rparr>))) \<and>
   (\<not> stage1 g \<longrightarrow> check_gitree_v1 g (dirname @ ''/'' @ d_name e) (d_sub e) w = Inr w) \<and>
   (length (d_name e) < 4 \<longrightarrow> name_with_git g (d_name e) = git_short g (d_name e)) \<and>
   (\<not> name_with_git g (d_name e) \<and> stage3 g \<and> in_nonbare_exp_list dirname = None \<longrightarrow>
      subdir_loop_v1 g dirname False [new_slot g dirname e] w = Inl (Undefined, w)) \<and>
   (in_nonbare_exp_list dirname = None) = (CHR ''/'' \<notin> set dirname) \<and>
   (CHR ''/'' \<in> set dirname \<longrightarrow>
      in_nonbare_exp_list dirname = Some (last_dir dirname \<in> set git_tree_nonbare)) \<and>
   (\<not> stage2 g \<longrightarrow> check_gitree_nonbare g dirname w = Inr w) \<and>
   (stage2 g \<and> CHR ''/'' \<notin> set dirname \<longrightarrow>
      check_gitree_nonbare g dirname w = Inl (Undefined, w))"
proof (intro conjI impI)
  assume "scan_ok es \<and> \<not> is_git_tree es \<and> dir_children es = xs @ e # ys"
  then show "gitree dirname (Some es) s =
        andthen (andthen
          (subdir_loop (map (slot dirname) xs)
             (subfile_loop dirname (map d_name (file_children es))
                (s\<lparr>out := out s @ [Checking dirname]\<rparr>)))
          (gitree (dirname @ ''/'' @ d_name e) (d_sub e)))
          (subdir_loop (map (slot dirname) ys))"
    by (intro gitree_walk_at) simp_all
next
  assume "readdir_loop_v1 g dirname es listing0_v1 v = Inr (ls, v1) \<and> \<not> has_markers es \<and>
    dir_children es = xs @ e # ys"
  then show "gitree_v1 g dirname (Some es) v =
        andthen (andthen
          (subdir_loop_v1 g dirname False (map (new_slot g dirname) xs) v1)
          (subdir_loop_v1 g dirname False [new_slot g dirname e]))
          (subdir_loop_v1 g dirname False (map (new_slot g dirname) ys))"
    by (intro gitree_v1_walk_at [where ls = ls]) simp_all
next
  assume "4 \<le> length (d_name e)"
  then show "name_with_git g (d_name e) = (drop (length (d_name e) - 4) (d_name e) = ''.git'')"
    by (rule name_with_git_long)
next
  assume "name_with_git g (d_name e) \<and> length (d_name e) \<noteq> 4"
  then show "subdir_loop_v1 g dirname False [new_slot g dirname e] w =
        check_gitree_v1 g (dirname @ ''/'' @ d_name e) (d_sub e) w"
    using v1_single_git_bare [of "new_slot g dirname e" g dirname w] by simp
next
  assume "name_with_git g (d_name e) \<and> length (d_name e) = 4"
  then show "subdir_loop_v1 g dirname False [new_slot g dirname e] w =
        andthen (check_gitree_v1 g (dirname @ ''/'' @ d_name e) (d_sub e) w)
          (check_gitree_nonbare g dirname)"
    using v1_single_git_nonbare [of "new_slot g dirname e" g dirname w] by simp
next
  assume "\<not> name_with_git g (d_name e) \<and>
    (\<not> stage3 g \<or> in_nonbare_exp_list dirname = Some False)"
  then show "subdir_loop_v1 g dirname False [new_slot g dirname e] w =
        gitree_v1 g (dirname @ ''/'' @ d_name e) (d_sub e) w"
    using v1_single_other [of "new_slot g dirname e" g dirname w] by simp
next
  assume "\<not> name_with_git g (d_name e) \<and> stage3 g \<and> in_nonbare_exp_list dirname = Some True"
  then show "subdir_loop_v1 g dirname False [new_slot g dirname e] w = Inr w"
    using v1_single_exempt [of "new_slot g dirname e" g dirname w] by simp
next
  assume "stage1 g"
  then show "check_gitree_v1 g (dirname @ ''/'' @ d_name e) (Some cs) w =
        Inr (check_loop_v1 cs
               (w\<lparr>out_v1 := out_v1 w @ [Checking_v1 (dirname @ ''/'' @ d_name e)]\<rparr>))"
    by (rule check_gitree_v1_stage1)
next
  assume "\<not> stage1 g"
  then show "check_gitree_v1 g (dirname @ ''/'' @ d_name e) (d_sub e) w = Inr w"
    by (rule check_gitree_v1_other)
next
  assume "length (d_name e) < 4"
  then show "name_with_git g (d_name e) = git_short g (d_name e)"
    by (simp add: name_with_git_def)
next
  assume "\<not> name_with_git g (d_name e) \<and> stage3 g \<and> in_nonbare_exp_list dirname = None"
  then show "subdir_loop_v1 g dirname False [new_slot g dirname e] w = Inl (Undefined, w)"
    by simp
next
  show "(in_nonbare_exp_list dirname = None) = (CHR ''/'' \<notin> set dirname)"
    by (simp add: in_nonbare_exp_list_def)
next
  assume "CHR ''/'' \<in> set dirname"
  then show "in_nonbare_exp_list dirname = Some (last_dir dirname \<in> set git_tree_nonbare)"
    by (simp add: in_nonbare_exp_list_def last_dir_def)
next
  assume "\<not> stage2 g"
  then show "check_gitree_nonbare g dirname w = Inr w"
    by (simp add: check_gitree_nonbare_def)
next
  assume "stage2 g \<and> CHR ''/'' \<notin> set dirname"
  then show "check_gitree_nonbare g dirname w = Inl (Undefined, w)"
    by (simp add: check_gitree_nonbare_def in_nonbare_exp_list_def)
qed

theorem directory_children_witness:
  "scan_ok [Dirent ''a.git'' DT_DIR (Some [Dirent ''x'' DT_REG None])] \<and>
   gitree ''/r'' (Some [Dirent ''a.git'' DT_DIR (Some [Dirent ''x'' DT_REG None])]) init =
     gitree ''/r/a.git'' (Some [Dirent ''x'' DT_REG None])
       \<lparr>out = [Checking ''/r''], sum_break_layout_rule = 0, sum_dir_name_not_with_git = 0,
        sum_non_bare_git = 0, sum_not_in_git = 0\<rparr> \<and>
   gitree_v1 \<lparr>stage1 = True, stage2 = False, stage3 = False, git_short = (\<lambda>n. False)\<rparr> ''/r''
     (Some [Dirent ''a.git'' DT_DIR (Some [Dirent ''x'' DT_REG None]),
            Dirent ''work'' DT_DIR (Some [Dirent ''.git'' DT_DIR (Some [Dirent ''HEAD'' DT_REG None])])])
     \<lparr>out_v1 = [], sum_v1 = 0, sum2 = 0\<rparr> =
     Inr \<lparr>out_v1 = [Checking_v1 ''/r/a.git'', Breaks_layout_v1 ''x'',
                    Checking_v1 ''/r/work/.git''],
          sum_v1 = 1, sum2 = 0\<rparr> \<and>
   name_with_git \<lparr>stage1 = True, stage2 = False, stage3 = False, git_short = (\<lambda>n. False)\<rparr>
     ''a.git'' \<and>
   subdir_loop_v1 \<lparr>stage1 = True, stage2 = False, stage3 = False, git_short = (\<lambda>n. False)\<rparr>
     ''/r'' False
     [new_slot \<lparr>stage1 = True, stage2 = False, stage3 = False, git_short = (\<lambda>n. False)\<rparr>
        ''/r'' (Dirent ''a.git'' DT_DIR (Some [Dirent ''x'' DT_REG None]))]
     \<lparr>out_v1 = [], sum_v1 = 0, sum2 = 0\<rparr> =
     Inr \<lparr>out_v1 = [Checking_v1 ''/r/a.git'', Breaks_layout_v1 ''x''], sum_v1 = 1, sum2 = 0\<rparr> \<and>
   \<not> name_with_git \<lparr>stage1 = True, stage2 = False, stage3 = False, git_short = (\<lambda>n. False)\<rparr>
     ''src'' \<and>
   subdir_loop_v1 \<lparr>stage1 = True, stage2 = False, stage3 = False, git_short = (\<lambda>n. False)\<rparr>
     ''/r'' False
     [new_slot \<lparr>stage1 = True, stage2 = False, stage3 = False, git_short = (\<lambda>n. False)\<rparr>
        ''/r''
        (Dirent ''src'' DT_DIR (Some [Dirent ''b.git'' DT_DIR (Some [Dirent ''y'' DT_REG None])]))]
     \<lparr>out_v1 = [], sum_v1 = 0, sum2 = 0\<rparr> =
     Inr \<lparr>out_v1 = [Checking_v1 ''/r/src/b.git'', Breaks_layout_v1 ''y''],
          sum_v1 = 1, sum2 = 0\<rparr> \<and>
   name_with_git \<lparr>stage1 = True, stage2 = False, stage3 = False, git_short = (\<lambda>n. True)\<rparr>
     ''src'' \<and>
   subdir_loop_v1 \<lparr>stage1 = True, stage2 = False, stage3 = False, git_short = (\<lambda>n. True)\<rparr>
     ''/r'' False
     [new_slot \<lparr>stage1 = True, stage2 = False, stage3 = False, git_short = (\<lambda>n. True)\<rparr>
        ''/r''
        (Dirent ''src'' DT_DIR (Some [Dirent ''b.git'' DT_DIR (Some [Dirent ''y'' DT_REG None])]))]
     \<lparr>out_v1 = [], sum_v1 = 0, sum2 = 0\<rparr> =
     Inr \<lparr>out_v1 = [Checking_v1 ''/r/src'', Breaks_layout_v1 ''b.git''],
          sum_v1 = 1, sum2 = 0\<rparr>"
proof -
  let ?a = "Dirent ''a.git'' DT_DIR (Some [Dirent ''x'' DT_REG None])"
  let ?src = "Dirent ''src'' DT_DIR (Some [Dirent ''b.git'' DT_DIR (Some [Dirent ''y'' DT_REG None])])"
  let ?g' = "\<lparr>stage1 = True, stage2 = False, stage3 = False, git_short = (\<lambda>n. True)\<rparr>"
  let ?w = "Dirent ''work'' DT_DIR (Some [Dirent ''.git'' DT_DIR (Some [Dirent ''HEAD'' DT_REG None])])"
  let ?g = "\<lparr>stage1 = True, stage2 = False, stage3 = False, git_short = (\<lambda>n. False)\<rparr>"
  let ?v = "\<lparr>out_v1 = [], sum_v1 = 0, sum2 = 0\<rparr>"
  have h: "scan_ok [?a] \<and> \<not> is_git_tree [?a] \<and> dir_children [?a] = [] @ ?a # []"
    by (simp add: scan_ok_def is_git_tree_def SUBDIRNO_def SUBFILENO_def)
  from directory_children [where es = "[?a]" and xs = "[]" and e = ?a and ys = "[]"
      and dirname = "''/r''" and s = init, THEN conjunct1, THEN mp, OF h]
  have a: "gitree ''/r'' (Some [?a]) init =
     gitree ''/r/a.git'' (Some [Dirent ''x'' DT_REG None])
       \<lparr>out = [Checking ''/r''], sum_break_layout_rule = 0, sum_dir_name_not_with_git = 0,
        sum_non_bare_git = 0, sum_not_in_git = 0\<rparr>"
    by (simp add: init_def andthen_def split: sum.splits)
  have b: "gitree_v1 ?g ''/r'' (Some [?a, ?w]) ?v =
     Inr \<lparr>out_v1 = [Checking_v1 ''/r/a.git'', Breaks_layout_v1 ''x'',
                    Checking_v1 ''/r/work/.git''],
          sum_v1 = 1, sum2 = 0\<rparr>"
    by (simp add: gitree_v1.simps listing0_v1_def Let_def SUBDIRNO_def new_slot_def
          name_with_git_def check_gitree_v1_def check_gitree_nonbare_def git_files_v1_def)
  have n: "name_with_git ?g (d_name ?a) \<and> length (d_name ?a) \<noteq> 4"
    by (simp add: name_with_git_def)
  from directory_children [where e = ?a and g = ?g and dirname = "''/r''" and w = ?v,
      THEN conjunct2, THEN conjunct2, THEN conjunct2, THEN conjunct1, THEN mp, OF n]
  have c: "subdir_loop_v1 ?g ''/r'' False [new_slot ?g ''/r'' ?a] ?v =
     Inr \<lparr>out_v1 = [Checking_v1 ''/r/a.git'', Breaks_layout_v1 ''x''], sum_v1 = 1, sum2 = 0\<rparr>"
    by (simp add: check_gitree_v1_def git_files_v1_def)
  from n have n1: "name_with_git ?g ''a.git''" by simp
  have sh: "length (d_name ?src) < 4" by simp
  note ts = directory_children [where e = ?src and g = ?g and dirname = "''/r''" and w = ?v]
  note ts' = directory_children [where e = ?src and g = ?g' and dirname = "''/r''" and w = ?v]
  note k9 = conjunct2 [THEN conjunct2, THEN conjunct2, THEN conjunct2, THEN conjunct2,
      THEN conjunct2, THEN conjunct2, THEN conjunct2, THEN conjunct2]
  from ts [THEN k9, THEN conjunct1, THEN mp, OF sh]
  have d1: "\<not> name_with_git ?g ''src''" by simp
  then have d1': "\<not> name_with_git ?g (d_name ?src) \<and>
      (\<not> stage3 ?g \<or> in_nonbare_exp_list ''/r'' = Some False)"
    by simp
  from ts [THEN conjunct2, THEN conjunct2, THEN conjunct2, THEN conjunct2, THEN conjunct2,
      THEN conjunct1, THEN mp, OF d1']
  have d2: "subdir_loop_v1 ?g ''/r'' False [new_slot ?g ''/r'' ?src] ?v =
     Inr \<lparr>out_v1 = [Checking_v1 ''/r/src/b.git'', Breaks_layout_v1 ''y''],
          sum_v1 = 1, sum2 = 0\<rparr>"
    by (simp add: gitree_v1.simps listing0_v1_def Let_def SUBDIRNO_def new_slot_def
          name_with_git_def check_gitree_v1_def git_files_v1_def)
  from ts' [THEN k9, THEN conjunct1, THEN mp, OF sh]
  have d3: "name_with_git ?g' ''src''" by simp
  then have d3': "name_with_git ?g' (d_name ?src) \<and> length (d_name ?src) \<noteq> 4"
    by simp
  from ts' [THEN conjunct2, THEN conjunct2, THEN conjunct2, THEN conjunct1, THEN mp, OF d3']
  have d4: "subdir_loop_v1 ?g' ''/r'' False [new_slot ?g' ''/r'' ?src] ?v =
     Inr \<lparr>out_v1 = [Checking_v1 ''/r/src'', Breaks_layout_v1 ''b.git''],
          sum_v1 = 1, sum2 = 0\<rparr>"
    by (simp add: check_gitree_v1_def git_files_v1_def)
  from h [THEN conjunct1] a b n1 c d1 d2 d3 d4 show ?thesis by (intro conjI)
qed

text \<open>
  The claim as stated fails on \<^verbatim>\<open>gitree.c\<close>: under \<open>/r\<close>, which is no git tree,
  the directory \<open>a.git\<close> is entered by the general recursion, and its file is
  reported as outside a git tree; the check by name would have reported a breach of
  the layout instead.
\<close>

theorem name_shortcut_counterexample:
  "4 < length ''a.git'' \<and> dir_name_with_git ''/r/a.git'' \<and>
   \<not> is_git_tree [Dirent ''a.git'' DT_DIR (Some [Dirent ''x'' DT_REG None])] \<and>
   gitree ''/r'' (Some [Dirent ''a.git'' DT_DIR (Some [Dirent ''x'' DT_REG None])]) init =
     Inr \<lparr>out = [Checking ''/r'', Checking ''/r/a.git'', Not_in_git ''/r/a.git'' ''x''],
          sum_break_layout_rule = 0, sum_dir_name_not_with_git = 0,
          sum_non_bare_git = 0, sum_not_in_git = 1\<rparr> \<and>
   check_gitree ''/r/a.git'' (Some [Dirent ''x'' DT_REG None])
       (init\<lparr>out := [Checking ''/r'']\<rparr>) =
     Inr \<lparr>out = [Checking ''/r'', Breaks_layout ''/r/a.git'' ''x''],
          sum_break_layout_rule = 1, sum_dir_name_not_with_git = 0,
          sum_non_bare_git = 0, sum_not_in_git = 0\<rparr>"
  by (simp add: gitree.simps Let_def listing0_def init_def SUBDIRNO_def SUBFILENO_def
        in_exception_list_def exception_list_def is_git_tree_def check_gitree_def
        dir_name_with_git_def last_dir_def git_files_def)

end
